theory Spec2Isabelle
  imports Main "HOL-Library.Multiset" "HOL-Library.Log_Nat" "HOL-Library.Code_Target_Numeral"
begin

section \<open>The vacation benchmark driver (vacation.c) and the TL2 macro header (tm.h)\<close>

subsection \<open>C doubles\<close>

text \<open>
  \<open>global_params\<close> is an array of \<open>double\<close>. A finite double is modelled by the rational
  number it denotes; every arithmetic operation rounds its exact result to the nearest
  number with a 53-bit significand, ties to even (IEEE 754 binary64, default rounding
  mode). The exponent range is not modelled: the values vacation.c computes come from
  \<open>long\<close>s and stay far inside it. A division by zero has no finite result (\<open>None\<close>).
\<close>

type_synonym double = rat

definition binade :: "rat \<Rightarrow> int" where
  \<comment> \<open>for \<open>0 < x\<close>: the \<open>e\<close> with \<open>2 powi e \<le> x < 2 powi (e + 1)\<close>\<close>
  "binade x =
     (case quotient_of x of (p, q) \<Rightarrow>
        let d = int (floorlog 2 (nat p)) - int (floorlog 2 (nat q))
        in if 2 powi d \<le> x then d else d - 1)"

definition round_even :: "rat \<Rightarrow> int" where
  "round_even y =
     (let f = \<lfloor>y\<rfloor>; r = y - of_int f
      in if r < 1 / 2 then f else if 1 / 2 < r then f + 1
         else if even f then f else f + 1)"

definition fl :: "rat \<Rightarrow> double" where
  "fl x = (if x = 0 then 0
           else let u = 2 powi (binade \<bar>x\<bar> - 52) in of_int (round_even (x / u)) * u)"

definition double_of_long :: "int \<Rightarrow> double" where
  "double_of_long n = fl (of_int n)"

definition dadd :: "double \<Rightarrow> double \<Rightarrow> double" where
  "dadd a b = fl (a + b)"

definition dmul :: "double \<Rightarrow> double \<Rightarrow> double" where
  "dmul a b = fl (a * b)"

definition ddiv :: "double \<Rightarrow> double \<Rightarrow> double option" where
  "ddiv a b = (if b = 0 then None else Some (fl (a / b)))"

definition LONG_MAX :: int where
  "LONG_MAX = 2 ^ 63 - 1"

definition LONG_MIN :: int where
  "LONG_MIN = - (2 ^ 63)"

definition long_of_double :: "double \<Rightarrow> int option" where
  \<comment> \<open>the cast \<open>(long)d\<close>: truncation towards zero; undefined (\<open>None\<close>) out of range\<close>
  "long_of_double d =
     (let t = (if 0 \<le> d then \<lfloor>d\<rfloor> else \<lceil>d\<rceil>)
      in if LONG_MIN \<le> t \<and> t \<le> LONG_MAX then Some t else None)"

subsection \<open>C library: atol, getopt, printf conversions\<close>

definition isspace :: "char \<Rightarrow> bool" where
  "isspace c = (c \<in> set [CHR '' '', CHR 0x09, CHR 0x0A, CHR 0x0B, CHR 0x0C, CHR 0x0D])"

definition isdigit :: "char \<Rightarrow> bool" where
  "isdigit c = (48 \<le> (of_char c :: nat) \<and> (of_char c :: nat) \<le> 57)"

definition digits_value :: "string \<Rightarrow> int" where
  "digits_value s = foldl (\<lambda>acc c. acc * 10 + (of_char c - 48)) 0 s"

definition atol :: "string \<Rightarrow> int" where
  \<comment> \<open>\<open>strtol(s, NULL, 10)\<close>: white space, an optional sign, the longest run of digits
      (0 when there is none), clamped to the range of \<open>long\<close>\<close>
  "atol s =
     (let s1 = dropWhile isspace s;
          neg = (case s1 of [] \<Rightarrow> False | c # _ \<Rightarrow> c = CHR ''-'');
          s2 = (case s1 of [] \<Rightarrow> [] | c # r \<Rightarrow> if c = CHR ''-'' \<or> c = CHR ''+'' then r else s1);
          v = digits_value (takeWhile isdigit s2)
      in max LONG_MIN (min LONG_MAX (if neg then - v else v)))"

definition opt_lookup :: "string \<Rightarrow> char \<Rightarrow> bool option" where
  \<comment> \<open>\<open>None\<close>: not an option character; \<open>Some b\<close>: an option, \<open>b\<close> when a colon follows it\<close>
  "opt_lookup optstring c =
     (if c = CHR '':'' \<or> c = CHR '';'' then None
      else case dropWhile (\<lambda>x. x \<noteq> c) optstring of
             [] \<Rightarrow> None
           | _ # rest \<Rightarrow> Some (case rest of [] \<Rightarrow> False | x # _ \<Rightarrow> x = CHR '':''))"

definition is_option :: "string \<Rightarrow> bool" where
  \<comment> \<open>an argv element that starts with \<open>-\<close> and is not \<open>-\<close> alone\<close>
  "is_option a = (case a of c # _ # _ \<Rightarrow> c = CHR ''-'' | _ \<Rightarrow> False)"

text \<open>
  All the calls of \<open>getopt\<close> that the loop of \<open>parseArgs\<close> makes, as one function: the
  values returned before \<open>-1\<close>, each with its \<open>optarg\<close>, and the elements of \<open>argv\<close> from
  \<open>optind\<close> on once \<open>-1\<close> is returned. The third argument is what is left of the
  element being scanned, the fourth the elements after it. \<open>posix\<close> is whether
  \<open>POSIXLY_CORRECT\<close> is set: scanning then stops at the first non-option; otherwise
  the non-options are moved behind the options.
\<close>

fun getopt_run :: "bool \<Rightarrow> string \<Rightarrow> string \<Rightarrow> string list \<Rightarrow> (char \<times> string) list \<times> string list" where
  "getopt_run posix optstring (c # cs) rest =
     (case opt_lookup optstring c of
        None \<Rightarrow> (case getopt_run posix optstring cs rest of
                   (evs, non) \<Rightarrow> ((CHR ''?'', []) # evs, non))
      | Some False \<Rightarrow> (case getopt_run posix optstring cs rest of
                   (evs, non) \<Rightarrow> ((c, []) # evs, non))
      | Some True \<Rightarrow>
          (if cs \<noteq> [] then
             (case getopt_run posix optstring [] rest of (evs, non) \<Rightarrow> ((c, cs) # evs, non))
           else (case rest of
                   [] \<Rightarrow> ([(CHR ''?'', [])], [])
                 | a # rest' \<Rightarrow>
                     (case getopt_run posix optstring [] rest' of
                        (evs, non) \<Rightarrow> ((c, a) # evs, non)))))"
| "getopt_run posix optstring [] [] = ([], [])"
| "getopt_run posix optstring [] (a # rest) =
     (if a = ''--'' then ([], rest)
      else if is_option a then getopt_run posix optstring (tl a) rest
      else if posix then ([], a # rest)
      else (case getopt_run posix optstring [] rest of (evs, non) \<Rightarrow> (evs, a # non)))"

definition digit_char :: "nat \<Rightarrow> char" where
  "digit_char d = ''0123456789'' ! d"

fun show_nat :: "nat \<Rightarrow> string" where
  "show_nat n =
     (if n < 10 then [digit_char n] else show_nat (n div 10) @ [digit_char (n mod 10)])"

declare show_nat.simps [simp del]

definition show_long :: "int \<Rightarrow> string" where
  \<comment> \<open>the conversions \<open>%li\<close> and \<open>%i\<close>\<close>
  "show_long i = (if i < 0 then CHR ''-'' # show_nat (nat (- i)) else show_nat (nat i))"

definition pad6 :: "nat \<Rightarrow> string" where
  "pad6 k = replicate (6 - length (show_nat k)) (CHR ''0'') @ show_nat k"

definition show_f6 :: "double \<Rightarrow> string" where
  \<comment> \<open>the conversion \<open>%0.6lf\<close> of a finite double: the exact value rounded to six decimals\<close>
  "show_f6 d =
     (let n = round_even (\<bar>d\<bar> * 10 ^ 6)
      in (if d < 0 then ''-'' else []) @ show_nat (nat (n div 10 ^ 6)) @ ''.'' @
         pad6 (nat (n mod 10 ^ 6)))"

definition PTRDIFF_MAX :: nat where
  "PTRDIFF_MAX = 2 ^ 63 - 1"

definition size_t_of :: "int \<Rightarrow> nat" where
  \<comment> \<open>conversion to the unsigned 64-bit \<open>size_t\<close>\<close>
  "size_t_of n = nat (n mod 2 ^ 64)"

subsection \<open>Output, exits and aborts\<close>

text \<open>
  A run writes text to the two standard streams, one entry per call of \<open>printf\<close>,
  \<open>puts\<close> or \<open>fprintf\<close>, and either goes on with a value or stops: \<open>exit\<close>, a failed
  \<open>assert\<close> (\<open>Abort\<close>), undefined behaviour of C (\<open>Undefined\<close>), or a call that never
  returns (\<open>Hang\<close>).
\<close>

datatype stream = Stdout | Stderr

datatype status = Exit int | Abort | Undefined | Hang

type_synonym 'a io = "(stream \<times> string) list \<times> (status + 'a)"

definition io_return :: "'a \<Rightarrow> 'a io" where
  "io_return x = ([], Inr x)"

definition io_stop :: "status \<Rightarrow> 'a io" where
  "io_stop s = ([], Inl s)"

definition io_bind :: "'a io \<Rightarrow> ('a \<Rightarrow> 'b io) \<Rightarrow> 'b io" where
  "io_bind m f =
     (case m of
        (o1, Inl s) \<Rightarrow> (o1, Inl s)
      | (o1, Inr x) \<Rightarrow> (case f x of (o2, r) \<Rightarrow> (o1 @ o2, r)))"

definition io_then :: "unit io \<Rightarrow> 'b io \<Rightarrow> 'b io" where
  "io_then m k = io_bind m (\<lambda>_. k)"

definition nl :: string where
  "nl = [CHR 0x0A]"

definition printf :: "string \<Rightarrow> unit io" where
  "printf s = ([(Stdout, s)], Inr ())"

definition puts :: "string \<Rightarrow> unit io" where
  "puts s = ([(Stdout, s @ nl)], Inr ())"

definition fprintf_stderr :: "string \<Rightarrow> unit io" where
  "fprintf_stderr s = ([(Stderr, s)], Inr ())"

definition c_assert :: "bool \<Rightarrow> unit io" where
  "c_assert b = (if b then io_return () else io_stop Abort)"

definition stdout_text :: "(stream \<times> string) list \<Rightarrow> string" where
  "stdout_text out = concat (map snd (filter (\<lambda>e. fst e = Stdout) out))"

subsection \<open>vacation.c: parameters and parseArgs\<close>

type_synonym params = "char \<Rightarrow> double"

definition PARAM_CLIENTS :: char where "PARAM_CLIENTS = CHR ''c''"
definition PARAM_NUMBER :: char where "PARAM_NUMBER = CHR ''n''"
definition PARAM_QUERIES :: char where "PARAM_QUERIES = CHR ''q''"
definition PARAM_RELATIONS :: char where "PARAM_RELATIONS = CHR ''r''"
definition PARAM_TRANSACTIONS :: char where "PARAM_TRANSACTIONS = CHR ''t''"
definition PARAM_USER :: char where "PARAM_USER = CHR ''u''"

definition PARAM_DEFAULT_CLIENTS :: int where "PARAM_DEFAULT_CLIENTS = 1"
definition PARAM_DEFAULT_NUMBER :: int where "PARAM_DEFAULT_NUMBER = 10"
definition PARAM_DEFAULT_QUERIES :: int where "PARAM_DEFAULT_QUERIES = 90"
definition PARAM_DEFAULT_RELATIONS :: int where "PARAM_DEFAULT_RELATIONS = push_bit 16 1"
definition PARAM_DEFAULT_TRANSACTIONS :: int where "PARAM_DEFAULT_TRANSACTIONS = push_bit 26 1"
definition PARAM_DEFAULT_USER :: int where "PARAM_DEFAULT_USER = 80"

definition displayUsage :: "string \<Rightarrow> 'a io" where
  "displayUsage appName =
     io_then (printf (''Usage: '' @ appName @ '' [options]'' @ nl))
    (io_then (puts (nl @ ''Options:                                             (defaults)'' @ nl))
    (io_then (printf (''    c <UINT>   Number of [c]lients                   ('' @
                      show_long PARAM_DEFAULT_CLIENTS @ '')'' @ nl))
    (io_then (printf (''    n <UINT>   [n]umber of user queries/transaction  ('' @
                      show_long PARAM_DEFAULT_NUMBER @ '')'' @ nl))
    (io_then (printf (''    q <UINT>   Percentage of relations [q]ueried     ('' @
                      show_long PARAM_DEFAULT_QUERIES @ '')'' @ nl))
    (io_then (printf (''    r <UINT>   Number of possible [r]elations        ('' @
                      show_long PARAM_DEFAULT_RELATIONS @ '')'' @ nl))
    (io_then (printf (''    t <UINT>   Number of [t]ransactions              ('' @
                      show_long PARAM_DEFAULT_TRANSACTIONS @ '')'' @ nl))
    (io_then (printf (''    u <UINT>   Percentage of [u]ser transactions     ('' @
                      show_long PARAM_DEFAULT_USER @ '')'' @ nl))
    (io_stop (Exit 1)))))))))"

definition setDefaultParams :: "params \<Rightarrow> params" where
  "setDefaultParams gp =
     gp(PARAM_CLIENTS := double_of_long PARAM_DEFAULT_CLIENTS,
        PARAM_NUMBER := double_of_long PARAM_DEFAULT_NUMBER,
        PARAM_QUERIES := double_of_long PARAM_DEFAULT_QUERIES,
        PARAM_RELATIONS := double_of_long PARAM_DEFAULT_RELATIONS,
        PARAM_TRANSACTIONS := double_of_long PARAM_DEFAULT_TRANSACTIONS,
        PARAM_USER := double_of_long PARAM_DEFAULT_USER)"

definition parse_opt :: "params \<times> nat \<Rightarrow> char \<times> string \<Rightarrow> params \<times> nat" where
  \<comment> \<open>the \<open>switch\<close> in the loop of \<open>parseArgs\<close>; the number is \<open>opterr\<close>\<close>
  "parse_opt s ev =
     (case s of (gp, opterr) \<Rightarrow>
        case ev of (opt, optarg) \<Rightarrow>
          if opt \<in> set ''cnqrtu'' then (gp(opt := double_of_long (atol optarg)), opterr)
          else (gp, opterr + 1))"

definition parse_opts :: "bool \<Rightarrow> string list \<Rightarrow> (params \<times> nat) \<times> string list" where
  \<comment> \<open>\<open>parseArgs\<close> up to the end of the \<open>getopt\<close> loop: the parameters, \<open>opterr\<close>, and
      the elements of \<open>argv\<close> from \<open>optind\<close> on\<close>
  "parse_opts posix args =
     (case getopt_run posix ''c:n:q:r:t:u:'' [] args of
        (evs, non) \<Rightarrow> (foldl parse_opt (setDefaultParams (\<lambda>_. 0), 0) evs, non))"

definition parseArgs :: "bool \<Rightarrow> string \<Rightarrow> string list \<Rightarrow> params io" where
  \<comment> \<open>\<open>argv\<close> is \<open>appName # args\<close>\<close>
  "parseArgs posix appName args =
     (case parse_opts posix args of
        ((gp, opterr), non) \<Rightarrow>
          io_then (map (\<lambda>a. (Stderr, ''Non-option argument: '' @ a @ nl)) non, Inr ())
            (if opterr + length non \<noteq> 0 then displayUsage appName else io_return gp))"

subsection \<open>What vacation.c calls but does not define\<close>

text \<open>
  The manager, the clients, the random number generator, the thread pool, the timer and
  the allocator are parameters of the model: \<open>'g\<close> is the state of a generator, \<open>'m\<close>
  the state of the manager. \<open>random_alloc\<close>, \<open>manager_alloc\<close> and \<open>client_alloc\<close> may
  return \<open>NULL\<close> (\<open>None\<close>, \<open>False\<close>); \<open>thread_start\<close> may never return (\<open>None\<close>).
  The calls that only release memory or start and stop the runtime (\<open>free\<close>,
  \<open>random_free\<close>, \<open>client_free\<close>, \<open>manager_free\<close>, \<open>TM_STARTUP\<close>, \<open>P_MEMORY_STARTUP\<close>,
  \<open>thread_startup\<close> and their shutdown counterparts) are taken to return and to write
  nothing.
\<close>

datatype table = CAR | FLIGHT | ROOM | CUSTOMER

record client =
  c_id :: int
  c_numTransactionPerClient :: int
  c_numQueryPerTransaction :: int
  c_queryRange :: int
  c_percentUser :: int

record ('g, 'm) env =
  posixly_correct :: bool
  malloc_ok :: "nat \<Rightarrow> bool"
  random_alloc :: "'g option"
  random_generate :: "'g \<Rightarrow> nat \<times> 'g"
  manager_alloc :: "'m option"
  manager_addCar_seq :: "'m \<Rightarrow> int \<Rightarrow> int \<Rightarrow> int \<Rightarrow> bool \<times> 'm"
  manager_addFlight_seq :: "'m \<Rightarrow> int \<Rightarrow> int \<Rightarrow> int \<Rightarrow> bool \<times> 'm"
  manager_addRoom_seq :: "'m \<Rightarrow> int \<Rightarrow> int \<Rightarrow> int \<Rightarrow> bool \<times> 'm"
  manager_addCustomer_seq :: "'m \<Rightarrow> int \<Rightarrow> bool \<times> 'm"
  manager_queryCar_seq :: "'m \<Rightarrow> int \<Rightarrow> int"
  manager_queryRoom_seq :: "'m \<Rightarrow> int \<Rightarrow> int"
  manager_deleteCar_seq :: "'m \<Rightarrow> int \<Rightarrow> int \<Rightarrow> bool \<times> 'm"
  manager_deleteFlight_seq :: "'m \<Rightarrow> int \<Rightarrow> bool \<times> 'm"
  manager_deleteRoom_seq :: "'m \<Rightarrow> int \<Rightarrow> int \<Rightarrow> bool \<times> 'm"
  manager_deleteCustomer_seq :: "'m \<Rightarrow> int \<Rightarrow> bool \<times> 'm"
  client_alloc :: "client \<Rightarrow> bool"
  thread_start :: "client list \<Rightarrow> 'm \<Rightarrow> 'm option"
  timer_diff_seconds :: double

definition malloc :: "('g, 'm) env \<Rightarrow> nat \<Rightarrow> bool" where
  \<comment> \<open>whether \<open>malloc\<close> of that many bytes returns a block; never above \<open>PTRDIFF_MAX\<close>\<close>
  "malloc env bytes = (bytes \<le> PTRDIFF_MAX \<and> malloc_ok env bytes)"

text \<open>
  The calls made on the manager, in order: the record the claims about them read. An
  \<open>Add\<close> is a call through \<open>manager_add[t]\<close> with its id, num and price and the status
  it returned.
\<close>

datatype mcall =
  Add table int int int bool
| DeleteCustomer int
| DeleteCar int int
| DeleteFlight int
| DeleteRoom int int

subsection \<open>vacation.c: initializeManager and cleanupManager\<close>

definition addCustomer :: "('g, 'm) env \<Rightarrow> 'm \<Rightarrow> int \<Rightarrow> int \<Rightarrow> int \<Rightarrow> bool \<times> 'm" where
  "addCustomer env m id' num price = manager_addCustomer_seq env m id'"

definition manager_add :: "('g, 'm) env \<Rightarrow> table \<Rightarrow> 'm \<Rightarrow> int \<Rightarrow> int \<Rightarrow> int \<Rightarrow> bool \<times> 'm" where
  \<comment> \<open>the array \<open>manager_add[]\<close> of function pointers\<close>
  "manager_add env t =
     (case t of CAR \<Rightarrow> manager_addCar_seq env | FLIGHT \<Rightarrow> manager_addFlight_seq env
      | ROOM \<Rightarrow> manager_addRoom_seq env | CUSTOMER \<Rightarrow> addCustomer env)"

primrec shuffle_ids :: "('g, 'm) env \<Rightarrow> nat \<Rightarrow> nat \<Rightarrow> 'g \<times> int list \<Rightarrow> 'g \<times> int list" where
  \<comment> \<open>the loop under "Shuffle ids": \<open>numRelation\<close>, the iterations left, the state\<close>
  "shuffle_ids env numRelation 0 s = s"
| "shuffle_ids env numRelation (Suc k) s =
     (case s of (g, ids) \<Rightarrow>
        case random_generate env g of (r1, g1) \<Rightarrow>
        case random_generate env g1 of (r2, g2) \<Rightarrow>
          let x = r1 mod numRelation;
              y = r2 mod numRelation;
              tmp = ids ! x;
              ids1 = ids[x := ids ! y];
              ids2 = ids1[y := tmp]
          in shuffle_ids env numRelation k (g2, ids2))"

fun populate_table ::
  "('g, 'm) env \<Rightarrow> table \<Rightarrow> int list \<Rightarrow> 'g \<times> 'm \<times> mcall list \<Rightarrow> ('g \<times> 'm \<times> mcall list) io" where
  \<comment> \<open>the loop under "Populate table", over \<open>ids[0]\<close>, ..., \<open>ids[numRelation - 1]\<close>\<close>
  "populate_table env t [] s = io_return s"
| "populate_table env t (id' # rest) s =
     (case s of (g, m, calls) \<Rightarrow>
        case random_generate env g of (r1, g1) \<Rightarrow>
        case random_generate env g1 of (r2, g2) \<Rightarrow>
          let num = int (((r1 mod 5) + 1) * 100);
              price = int (((r2 mod 5) * 10) + 50)
          in case manager_add env t m id' num price of (status, m') \<Rightarrow>
               io_then (c_assert status)
                 (populate_table env t rest (g2, m', calls @ [Add t id' num price status])))"

fun init_tables ::
  "('g, 'm) env \<Rightarrow> nat \<Rightarrow> table list \<Rightarrow> 'g \<times> int list \<times> 'm \<times> mcall list \<Rightarrow>
     ('g \<times> int list \<times> 'm \<times> mcall list) io" where
  \<comment> \<open>the loop \<open>for (t = 0; t < numTable; t++)\<close>\<close>
  "init_tables env numRelation [] s = io_return s"
| "init_tables env numRelation (t # ts) s =
     (case s of (g, ids, m, calls) \<Rightarrow>
        case shuffle_ids env numRelation numRelation (g, ids) of (g1, ids1) \<Rightarrow>
          io_bind (populate_table env t ids1 (g1, m, calls))
            (\<lambda>s2. case s2 of (g2, m2, calls2) \<Rightarrow>
               init_tables env numRelation ts (g2, ids1, m2, calls2)))"

definition initializeManager :: "('g, 'm) env \<Rightarrow> params \<Rightarrow> ('m \<times> mcall list) io" where
  "initializeManager env gp =
     io_then (printf ''Initializing manager... '')
    (case random_alloc env of None \<Rightarrow> io_stop Abort | Some g0 \<Rightarrow>
     case manager_alloc env of None \<Rightarrow> io_stop Abort | Some m0 \<Rightarrow>
     case long_of_double (gp PARAM_RELATIONS) of None \<Rightarrow> io_stop Undefined | Some numRelation \<Rightarrow>
       if 0 < numRelation \<and>
          (2 ^ 64 \<le> numRelation * 8 \<or> \<not> malloc env (size_t_of (numRelation * 8)))
       then io_stop Undefined
       else
         io_bind (init_tables env (nat numRelation) [CAR, FLIGHT, ROOM, CUSTOMER]
                    (g0, map (\<lambda>i. int i + 1) [0..<nat numRelation], m0, []))
           (\<lambda>s. case s of (g, ids, m, calls) \<Rightarrow>
              io_then (puts ''done.'') (io_return (m, calls))))"

definition cleanup_customer :: "('g, 'm) env \<Rightarrow> nat \<Rightarrow> 'm \<times> mcall list \<Rightarrow> 'm \<times> mcall list" where
  "cleanup_customer env i s =
     (case s of (m, calls) \<Rightarrow>
        (snd (manager_deleteCustomer_seq env m (int i + 1)),
         calls @ [DeleteCustomer (int i + 1)]))"

definition cleanup_items :: "('g, 'm) env \<Rightarrow> nat \<Rightarrow> 'm \<times> mcall list \<Rightarrow> 'm \<times> mcall list" where
  "cleanup_items env i s =
     (case s of (m, calls) \<Rightarrow>
        let nc = manager_queryCar_seq env m (int i + 1);
            m1 = snd (manager_deleteCar_seq env m (int i + 1) nc);
            m2 = snd (manager_deleteFlight_seq env m1 (int i + 1));
            nr = manager_queryRoom_seq env m2 (int i + 1);
            m3 = snd (manager_deleteRoom_seq env m2 (int i + 1) nr)
        in (m3, calls @ [DeleteCar (int i + 1) nc, DeleteFlight (int i + 1),
                         DeleteRoom (int i + 1) nr]))"

definition cleanupManager ::
  "('g, 'm) env \<Rightarrow> params \<Rightarrow> 'm \<times> mcall list \<Rightarrow> ('m \<times> mcall list) io" where
  "cleanupManager env gp s =
     (case long_of_double (gp PARAM_RELATIONS) of None \<Rightarrow> io_stop Undefined
      | Some numRelation \<Rightarrow>
          io_return (fold (cleanup_items env) [0..<nat numRelation]
                       (fold (cleanup_customer env) [0..<nat numRelation] s)))"

fun adds_of :: "table \<Rightarrow> mcall list \<Rightarrow> (int \<times> int \<times> int \<times> bool) list" where
  \<comment> \<open>the add calls made on one table: id, num, price, status\<close>
  "adds_of t [] = []"
| "adds_of t (Add t' i n p st # cs) = (if t' = t then (i, n, p, st) # adds_of t cs else adds_of t cs)"
| "adds_of t (_ # cs) = adds_of t cs"

fun deleted_customers :: "mcall list \<Rightarrow> int list" where
  \<comment> \<open>the ids passed to \<open>manager_deleteCustomer_seq\<close>\<close>
  "deleted_customers [] = []"
| "deleted_customers (DeleteCustomer i # cs) = i # deleted_customers cs"
| "deleted_customers (_ # cs) = deleted_customers cs"

text \<open>
  What a list of recorded calls means: each call is made on the manager, in order, through
  the function of the manager that it names, an \<open>Add\<close> on the customers through
  \<open>manager_addCustomer_seq\<close> with the id alone. The result is the manager the calls
  leave, and \<open>None\<close> when a call does not return on that manager what was recorded of
  it: the status of an add, the number that a query had returned for a delete.
\<close>

fun manager_call :: "('g, 'm) env \<Rightarrow> mcall \<Rightarrow> 'm \<Rightarrow> 'm option" where
  "manager_call env (Add CAR i n p st) m =
     (if fst (manager_addCar_seq env m i n p) = st
      then Some (snd (manager_addCar_seq env m i n p)) else None)"
| "manager_call env (Add FLIGHT i n p st) m =
     (if fst (manager_addFlight_seq env m i n p) = st
      then Some (snd (manager_addFlight_seq env m i n p)) else None)"
| "manager_call env (Add ROOM i n p st) m =
     (if fst (manager_addRoom_seq env m i n p) = st
      then Some (snd (manager_addRoom_seq env m i n p)) else None)"
| "manager_call env (Add CUSTOMER i n p st) m =
     (if fst (manager_addCustomer_seq env m i) = st
      then Some (snd (manager_addCustomer_seq env m i)) else None)"
| "manager_call env (DeleteCustomer i) m = Some (snd (manager_deleteCustomer_seq env m i))"
| "manager_call env (DeleteCar i n) m =
     (if manager_queryCar_seq env m i = n
      then Some (snd (manager_deleteCar_seq env m i n)) else None)"
| "manager_call env (DeleteFlight i) m = Some (snd (manager_deleteFlight_seq env m i))"
| "manager_call env (DeleteRoom i n) m =
     (if manager_queryRoom_seq env m i = n
      then Some (snd (manager_deleteRoom_seq env m i n)) else None)"

fun manager_calls :: "('g, 'm) env \<Rightarrow> mcall list \<Rightarrow> 'm \<Rightarrow> 'm option" where
  "manager_calls env [] m = Some m"
| "manager_calls env (c # cs) m =
     (case manager_call env c m of None \<Rightarrow> None | Some m' \<Rightarrow> manager_calls env cs m')"

subsection \<open>vacation.c: initializeClients and main\<close>

definition client_quota :: "int \<Rightarrow> int \<Rightarrow> int option" where
  \<comment> \<open>\<open>(long)((double)numTransaction / (double)numClient + 0.5)\<close>\<close>
  "client_quota numTransaction numClient =
     (case ddiv (double_of_long numTransaction) (double_of_long numClient) of
        None \<Rightarrow> None
      | Some d \<Rightarrow> long_of_double (dadd d (1 / 2)))"

definition query_range :: "int \<Rightarrow> int \<Rightarrow> int option" where
  \<comment> \<open>\<open>(long)((double)percentQuery / 100.0 * (double)numRelation + 0.5)\<close>\<close>
  "query_range percentQuery numRelation =
     (case ddiv (double_of_long percentQuery) 100 of
        None \<Rightarrow> None
      | Some d \<Rightarrow> long_of_double (dadd (dmul d (double_of_long numRelation)) (1 / 2)))"

definition clients_summary :: "int \<Rightarrow> int \<Rightarrow> int \<Rightarrow> int \<Rightarrow> int \<Rightarrow> int \<Rightarrow> int \<Rightarrow> int \<Rightarrow> unit io" where
  \<comment> \<open>the eight \<open>printf\<close> calls at the end of \<open>initializeClients\<close>\<close>
  "clients_summary numTransaction numClient numTransactionPerClient numQueryPerTransaction
       numRelation percentQuery queryRange percentUser =
     io_then (printf (''    Transactions        = '' @ show_long numTransaction @ nl))
    (io_then (printf (''    Clients             = '' @ show_long numClient @ nl))
    (io_then (printf (''    Transactions/client = '' @ show_long numTransactionPerClient @ nl))
    (io_then (printf (''    Queries/transaction = '' @ show_long numQueryPerTransaction @ nl))
    (io_then (printf (''    Relations           = '' @ show_long numRelation @ nl))
    (io_then (printf (''    Query percent       = '' @ show_long percentQuery @ nl))
    (io_then (printf (''    Query range         = '' @ show_long queryRange @ nl))
             (printf (''    Percent user        = '' @ show_long percentUser @ nl))))))))"

definition initializeClients :: "('g, 'm) env \<Rightarrow> params \<Rightarrow> client list io" where
  "initializeClients env gp =
     (case long_of_double (gp PARAM_CLIENTS) of None \<Rightarrow> io_stop Undefined | Some numClient \<Rightarrow>
      case long_of_double (gp PARAM_TRANSACTIONS) of None \<Rightarrow> io_stop Undefined | Some numTransaction \<Rightarrow>
      case long_of_double (gp PARAM_NUMBER) of None \<Rightarrow> io_stop Undefined | Some numQueryPerTransaction \<Rightarrow>
      case long_of_double (gp PARAM_RELATIONS) of None \<Rightarrow> io_stop Undefined | Some numRelation \<Rightarrow>
      case long_of_double (gp PARAM_QUERIES) of None \<Rightarrow> io_stop Undefined | Some percentQuery \<Rightarrow>
      case long_of_double (gp PARAM_USER) of None \<Rightarrow> io_stop Undefined | Some percentUser \<Rightarrow>
        io_then (printf ''Initializing clients... '')
       (io_then (c_assert (random_alloc env \<noteq> None))
       (io_then (c_assert (malloc env (size_t_of (numClient * 8))))
       (case client_quota numTransaction numClient of None \<Rightarrow> io_stop Undefined
        | Some numTransactionPerClient \<Rightarrow>
        case query_range percentQuery numRelation of None \<Rightarrow> io_stop Undefined
        | Some queryRange \<Rightarrow>
          let clients =
                map (\<lambda>i. \<lparr>c_id = int i,
                          c_numTransactionPerClient = numTransactionPerClient,
                          c_numQueryPerTransaction = numQueryPerTransaction,
                          c_queryRange = queryRange,
                          c_percentUser = percentUser\<rparr>) [0..<nat numClient];
              room = size_t_of (numClient * 8) div 8
          in io_then (c_assert (list_all (client_alloc env) (take room clients)))
               (if room < length clients then io_stop Undefined
                else io_then (puts ''done.'')
                    (io_then (clients_summary numTransaction numClient numTransactionPerClient
                                numQueryPerTransaction numRelation percentQuery queryRange
                                percentUser)
                       (io_return clients)))))))"

definition main_body :: "('g, 'm) env \<Rightarrow> string \<Rightarrow> string list \<Rightarrow> int io" where
  "main_body env appName args =
     io_bind (parseArgs (posixly_correct env) appName args) (\<lambda>gp.
     io_bind (initializeManager env gp) (\<lambda>s.
     io_bind (initializeClients env gp) (\<lambda>clients.
     io_then (printf ''Running clients... '')
    (case thread_start env clients (fst s) of None \<Rightarrow> io_stop Hang | Some m' \<Rightarrow>
     io_then (puts ''done.'')
    (io_then (printf (''Time = '' @ show_f6 (timer_diff_seconds env) @ nl))
    (io_then (printf ''Deallocating memory... '')
    (io_bind (cleanupManager env gp (m', snd s)) (\<lambda>s'.
     io_then (puts ''done.'')
    (io_return 0)))))))))"

definition main :: "('g, 'm) env \<Rightarrow> string \<Rightarrow> string list \<Rightarrow> (stream \<times> string) list \<times> status" where
  \<comment> \<open>what the process wrote and how it ended; \<open>MAIN_RETURN(0)\<close> is exit code 0\<close>
  "main env appName args =
     (case main_body env appName args of
        (out, Inl st) \<Rightarrow> (out, st)
      | (out, Inr rc) \<Rightarrow> (out, Exit rc))"

text \<open>
  A concrete environment to run the model in: a linear congruential generator, every
  allocation succeeds, the thread pool returns and the timer reads a third of a second.
  Its manager keeps four lists, one for each table, of what was added and not deleted
  since: it accepts every add, a query returns the number of the first entry under the
  id and \<open>-1\<close> when there is none, and a delete removes the entries under the id and
  returns whether there was one.
\<close>

record demo_manager =
  cars :: "(int \<times> int \<times> int) list"
  flights :: "(int \<times> int \<times> int) list"
  rooms :: "(int \<times> int \<times> int) list"
  customers :: "int list"

definition demo_query :: "(int \<times> int \<times> int) list \<Rightarrow> int \<Rightarrow> int" where
  "demo_query es i = (case filter (\<lambda>e. fst e = i) es of [] \<Rightarrow> - 1 | e # _ \<Rightarrow> fst (snd e))"

definition demo_delete :: "(int \<times> int \<times> int) list \<Rightarrow> int \<Rightarrow> (int \<times> int \<times> int) list" where
  "demo_delete es i = filter (\<lambda>e. fst e \<noteq> i) es"

definition demo_generate :: "nat \<Rightarrow> nat \<times> nat" where
  "demo_generate g = (g div 8, (g * 5 + 3) mod 64)"

definition demo_env :: "(nat, demo_manager) env" where
  "demo_env =
     \<lparr>posixly_correct = False,
      malloc_ok = (\<lambda>_. True),
      random_alloc = Some 7,
      random_generate = demo_generate,
      manager_alloc = Some \<lparr>cars = [], flights = [], rooms = [], customers = []\<rparr>,
      manager_addCar_seq = (\<lambda>m i n p. (True, m\<lparr>cars := cars m @ [(i, n, p)]\<rparr>)),
      manager_addFlight_seq = (\<lambda>m i n p. (True, m\<lparr>flights := flights m @ [(i, n, p)]\<rparr>)),
      manager_addRoom_seq = (\<lambda>m i n p. (True, m\<lparr>rooms := rooms m @ [(i, n, p)]\<rparr>)),
      manager_addCustomer_seq = (\<lambda>m i. (True, m\<lparr>customers := customers m @ [i]\<rparr>)),
      manager_queryCar_seq = (\<lambda>m i. demo_query (cars m) i),
      manager_queryRoom_seq = (\<lambda>m i. demo_query (rooms m) i),
      manager_deleteCar_seq =
        (\<lambda>m i n. (i \<in> fst ` set (cars m), m\<lparr>cars := demo_delete (cars m) i\<rparr>)),
      manager_deleteFlight_seq =
        (\<lambda>m i. (i \<in> fst ` set (flights m), m\<lparr>flights := demo_delete (flights m) i\<rparr>)),
      manager_deleteRoom_seq =
        (\<lambda>m i n. (i \<in> fst ` set (rooms m), m\<lparr>rooms := demo_delete (rooms m) i\<rparr>)),
      manager_deleteCustomer_seq =
        (\<lambda>m i. (i \<in> set (customers m), m\<lparr>customers := removeAll i (customers m)\<rparr>)),
      client_alloc = (\<lambda>_. True),
      thread_start = (\<lambda>_ m. Some m),
      timer_diff_seconds = 1 / 3\<rparr>"


definition calls_succeed :: "('g, 'm) env \<Rightarrow> bool" where
  \<comment> \<open>no allocation fails and every add on the manager returns true\<close>
  "calls_succeed env =
     (random_alloc env \<noteq> None \<and> manager_alloc env \<noteq> None \<and> (\<forall>n. malloc_ok env n) \<and>
      (\<forall>t m i n p. fst (manager_add env t m i n p)) \<and> (\<forall>c. client_alloc env c))"

subsection \<open>tm.h: the macros of the TL2 flavour\<close>

text \<open>
  The \<open>#define\<close> lines of tm.h as a table: the name, the parameter names (\<open>None\<close> for a
  macro without parentheses) and the replacement list, a list of tokens.
  \<open>expand_macro\<close> is one replacement step of the preprocessor: every parameter in the
  replacement list is replaced by the tokens of its argument.
\<close>

type_synonym token = string

definition tm_h :: "(string \<times> string list option \<times> token list) list" where
  "tm_h =
    [(''TM_ARG'', None, [''STM_SELF'', '','']),
     (''TM_ARG_ALONE'', None, [''STM_SELF'']),
     (''TM_ARGDECL'', None, [''STM_THREAD_T'', ''*'', ''TM_ARG'']),
     (''TM_ARGDECL_ALONE'', None, [''STM_THREAD_T'', ''*'', ''TM_ARG_ALONE'']),
     (''TM_CALLABLE'', None, []),
     (''TM_STARTUP'', Some [''numThread''], [''STM_STARTUP'', ''('', '')'']),
     (''TM_SHUTDOWN'', Some [], [''STM_SHUTDOWN'', ''('', '')'']),
     (''TM_THREAD_ENTER'', Some [],
        [''TM_ARGDECL_ALONE'', ''='', ''STM_NEW_THREAD'', ''('', '')'', '';'',
         ''STM_INIT_THREAD'', ''('', ''TM_ARG_ALONE'', '','', ''thread_getId'', ''('', '')'', '')'']),
     (''TM_THREAD_EXIT'', Some [], [''STM_FREE_THREAD'', ''('', ''TM_ARG_ALONE'', '')'']),
     (''P_MALLOC'', Some [''size''], [''malloc'', ''('', ''size'', '')'']),
     (''P_FREE'', Some [''ptr''], [''free'', ''('', ''ptr'', '')'']),
     (''TM_MALLOC'', Some [''size''], [''STM_MALLOC'', ''('', ''size'', '')'']),
     (''TM_FREE'', Some [''ptr''], [''STM_FREE'', ''('', ''ptr'', '')'']),
     (''TM_BEGIN'', Some [], [''STM_BEGIN_WR'', ''('', '')'']),
     (''TM_BEGIN_RO'', Some [], [''STM_BEGIN_RD'', ''('', '')'']),
     (''TM_END'', Some [], [''STM_END'', ''('', '')'']),
     (''TM_RESTART'', Some [], [''STM_RESTART'', ''('', '')'']),
     (''TM_EARLY_RELEASE'', Some [''var''], []),
     (''TM_SHARED_READ'', Some [''var''], [''STM_READ'', ''('', ''var'', '')'']),
     (''TM_SHARED_READ_P'', Some [''var''], [''STM_READ_P'', ''('', ''var'', '')'']),
     (''TM_SHARED_READ_F'', Some [''var''], [''STM_READ_F'', ''('', ''var'', '')'']),
     (''TM_SHARED_WRITE'', Some [''var'', ''val''],
        [''STM_WRITE'', ''('', ''('', ''var'', '')'', '','', ''val'', '')'']),
     (''TM_SHARED_WRITE_P'', Some [''var'', ''val''],
        [''STM_WRITE_P'', ''('', ''('', ''var'', '')'', '','', ''val'', '')'']),
     (''TM_SHARED_WRITE_F'', Some [''var'', ''val''],
        [''STM_WRITE_F'', ''('', ''('', ''var'', '')'', '','', ''val'', '')'']),
     (''TM_LOCAL_WRITE'', Some [''var'', ''val''],
        [''STM_LOCAL_WRITE'', ''('', ''var'', '','', ''val'', '')'']),
     (''TM_LOCAL_WRITE_P'', Some [''var'', ''val''],
        [''STM_LOCAL_WRITE_P'', ''('', ''var'', '','', ''val'', '')'']),
     (''TM_LOCAL_WRITE_F'', Some [''var'', ''val''],
        [''STM_LOCAL_WRITE_F'', ''('', ''var'', '','', ''val'', '')''])]"

definition subst_token :: "(string \<times> token list) list \<Rightarrow> token \<Rightarrow> token list" where
  "subst_token binding tok = (case map_of binding tok of None \<Rightarrow> [tok] | Some arg \<Rightarrow> arg)"

definition expand_macro ::
  "(string \<times> string list option \<times> token list) list \<Rightarrow> string \<Rightarrow> token list list \<Rightarrow>
     token list option" where
  "expand_macro tbl name args =
     (case map_of tbl name of
        None \<Rightarrow> None
      | Some (None, body) \<Rightarrow> if args = [] then Some body else None
      | Some (Some ps, body) \<Rightarrow>
          if length ps = length args then Some (concat (map (subst_token (zip ps args)) body))
          else None)"

text \<open>
  The state the allocation macros act on: the blocks the allocator has handed out, and
  the read set and the two logs of the running transaction.
\<close>

record tx_state =
  live :: "nat set"
  read_set :: "(nat \<times> nat) list"
  alloc_log :: "nat list"
  free_log :: "nat list"

definition c_malloc :: "nat \<Rightarrow> tx_state \<Rightarrow> tx_state" where
  \<comment> \<open>\<open>malloc\<close> of the C library returning the block \<open>p\<close>\<close>
  "c_malloc p s = s\<lparr>live := insert p (live s)\<rparr>"

definition c_free :: "nat \<Rightarrow> tx_state \<Rightarrow> tx_state" where
  "c_free p s = s\<lparr>live := live s - {p}\<rparr>"

definition TxAlloc :: "nat \<Rightarrow> tx_state \<Rightarrow> tx_state" where
  \<comment> \<open>Modelled from the spec: \<open>STM_MALLOC\<close> is defined in stm.h, which is not among the
      sources. Section 4.1: allocations inside a transaction are recorded.\<close>
  "TxAlloc p s = s\<lparr>live := insert p (live s), alloc_log := alloc_log s @ [p]\<rparr>"

definition TxFree :: "nat \<Rightarrow> tx_state \<Rightarrow> tx_state" where
  \<comment> \<open>Modelled from the spec: \<open>STM_FREE\<close> is defined in stm.h, which is not among the
      sources. Section 4.1: frees inside a transaction are deferred to after a
      successful commit.\<close>
  "TxFree p s = s\<lparr>free_log := free_log s @ [p]\<rparr>"

definition TxAbort :: "tx_state \<Rightarrow> tx_state" where
  \<comment> \<open>Modelled from the spec: the abort of the STM runtime, which is not among the
      sources. Section 4.1: free the pointers of the allocation log, keep those of the
      free log alive, reset the transaction.\<close>
  "TxAbort s = s\<lparr>live := live s - set (alloc_log s), read_set := [], alloc_log := [],
                 free_log := []\<rparr>"

definition TxCommit :: "tx_state \<Rightarrow> tx_state" where
  \<comment> \<open>Modelled from the spec: the commit of the STM runtime, which is not among the
      sources. Section 4.1: free the pointers of the free log; allocations survive.\<close>
  "TxCommit s = s\<lparr>live := live s - set (free_log s), read_set := [], alloc_log := [],
                  free_log := []\<rparr>"

definition run_tokens :: "token list \<Rightarrow> nat \<Rightarrow> tx_state \<Rightarrow> tx_state option" where
  \<comment> \<open>what the statement made of these tokens does to the state, \<open>p\<close> being the block the
      call returns or is given; no token is the empty statement; \<open>None\<close> for a call
      that is not modelled\<close>
  "run_tokens toks p s =
     (case toks of
        [] \<Rightarrow> Some s
      | f # _ \<Rightarrow>
          if f = ''malloc'' then Some (c_malloc p s)
          else if f = ''free'' then Some (c_free p s)
          else if f = ''STM_MALLOC'' then Some (TxAlloc p s)
          else if f = ''STM_FREE'' then Some (TxFree p s)
          else None)"

definition run_macro :: "string \<Rightarrow> token list list \<Rightarrow> nat \<Rightarrow> tx_state \<Rightarrow> tx_state option" where
  "run_macro name args p s =
     (case expand_macro tm_h name args of None \<Rightarrow> None | Some toks \<Rightarrow> run_tokens toks p s)"

section \<open>Properties\<close>

subsection \<open>Rounding to double\<close>

lemma binade_bounds:
  assumes "0 < x"
  shows "2 powi (binade x) \<le> x \<and> x < 2 powi (binade x + 1)"
proof -
  obtain p q where pq: "quotient_of x = (p, q)" by (cases "quotient_of x")
  have q: "0 < q" using pq by (rule quotient_of_denom_pos)
  have x: "x = of_int p / of_int q" using pq by (rule quotient_of_div)
  have p: "0 < p" using assms q x by (simp add: zero_less_divide_iff)
  define a where "a = floorlog 2 (nat p)"
  define b where "b = floorlog 2 (nat q)"
  have ba: "2 ^ (a - 1) \<le> nat p \<and> nat p < 2 ^ a"
    unfolding a_def using floorlog_bounds [of "nat p" 2] p by simp
  have bb: "2 ^ (b - 1) \<le> nat q \<and> nat q < 2 ^ b"
    unfolding b_def using floorlog_bounds [of "nat q" 2] q by simp
  have a1: "1 \<le> a" using ba by (cases a) auto
  have b1: "1 \<le> b" using bb by (cases b) auto
  have pl: "(2::rat) ^ (a - 1) \<le> of_int p"
  proof -
    have "int (2 ^ (a - 1)) \<le> p" using ba p by linarith
    then have "(of_int (int (2 ^ (a - 1))) :: rat) \<le> of_int p" by (simp only: of_int_le_iff)
    then show ?thesis by simp
  qed
  have pu: "(of_int p :: rat) < 2 ^ a"
  proof -
    have "p < int (2 ^ a)" using ba p by linarith
    then have "(of_int p :: rat) < of_int (int (2 ^ a))" by (simp only: of_int_less_iff)
    then show ?thesis by simp
  qed
  have ql: "(2::rat) ^ (b - 1) \<le> of_int q"
  proof -
    have "int (2 ^ (b - 1)) \<le> q" using bb q by linarith
    then have "(of_int (int (2 ^ (b - 1))) :: rat) \<le> of_int q" by (simp only: of_int_le_iff)
    then show ?thesis by simp
  qed
  have qu: "(of_int q :: rat) < 2 ^ b"
  proof -
    have "q < int (2 ^ b)" using bb q by linarith
    then have "(of_int q :: rat) < of_int (int (2 ^ b))" by (simp only: of_int_less_iff)
    then show ?thesis by simp
  qed
  define d where "d = int a - int b"
  have qpos: "(0::rat) < of_int q" using q by simp
  have up: "x < 2 powi (d + 1)"
  proof -
    have "d + 1 = int a - int (b - 1)" using b1 by (simp add: d_def)
    then have "(2::rat) powi (d + 1) = 2 ^ a / 2 ^ (b - 1)"
      by (simp add: power_int_diff)
    moreover have "of_int p / of_int q < (2::rat) ^ a / 2 ^ (b - 1)"
      using p by (intro frac_less pu ql) simp_all
    ultimately show ?thesis using x by simp
  qed
  have lo: "2 powi (d - 1) \<le> x"
  proof -
    have "d - 1 = int (a - 1) - int b" using a1 by (simp add: d_def)
    then have "(2::rat) powi (d - 1) = 2 ^ (a - 1) / 2 ^ b"
      by (simp add: power_int_diff)
    moreover have "(2::rat) ^ (a - 1) / 2 ^ b \<le> of_int p / of_int q"
      using qpos qu p by (intro frac_le pl) simp_all
    ultimately show ?thesis using x by simp
  qed
  have bin: "binade x = (if 2 powi d \<le> x then d else d - 1)"
    by (simp add: binade_def pq a_def b_def d_def Let_def)
  show ?thesis
  proof (cases "2 powi d \<le> x")
    case True
    then show ?thesis using bin up by simp
  next
    case False
    then show ?thesis using bin lo by simp
  qed
qed



lemma round_even_error: "\<bar>of_int (round_even y) - y\<bar> \<le> 1 / 2"
proof -
  have "of_int \<lfloor>y\<rfloor> \<le> y" "y < of_int \<lfloor>y\<rfloor> + 1" by linarith+
  then show ?thesis by (auto simp: round_even_def Let_def)
qed

lemma round_even_of_int: "round_even (of_int k) = k"
  by (simp add: round_even_def)

lemma fl_error: "\<bar>fl x - x\<bar> \<le> \<bar>x\<bar> / 2 ^ 53"
proof (cases "x = 0")
  case True
  then show ?thesis by (simp add: fl_def)
next
  case False
  define e where "e = binade \<bar>x\<bar>"
  define u :: rat where "u = 2 powi (e - 52)"
  have upos: "0 < u" by (simp add: u_def zero_less_power_int)
  have b: "2 powi e \<le> \<bar>x\<bar>" using binade_bounds [of "\<bar>x\<bar>"] False by (simp add: e_def)
  have flx: "fl x = of_int (round_even (x / u)) * u"
    using False by (simp add: fl_def e_def u_def Let_def)
  have "\<bar>fl x - x\<bar> = \<bar>of_int (round_even (x / u)) - x / u\<bar> * u"
  proof -
    have "fl x - x = (of_int (round_even (x / u)) - x / u) * u"
      using upos by (simp add: flx field_simps)
    then show ?thesis using upos by (simp add: abs_mult)
  qed
  also have "\<dots> \<le> (1 / 2) * u"
    using round_even_error [of "x / u"] upos by (intro mult_right_mono) simp_all
  also have "\<dots> = 2 powi e / 2 ^ 53"
  proof -
    have "u = 2 powi e / 2 powi 52" unfolding u_def by (simp add: power_int_diff)
    then show ?thesis by simp
  qed
  also have "\<dots> \<le> \<bar>x\<bar> / 2 ^ 53" using b by (simp add: divide_right_mono)
  finally show ?thesis .
qed

lemma fl_exact:
  assumes "\<bar>m\<bar> \<le> 2 ^ 53"
  shows "fl (of_int m * 2 powi k) = of_int m * 2 powi k"
proof (cases "m = 0")
  case True
  then show ?thesis by (simp add: fl_def)
next
  case False
  define x :: rat where "x = of_int m * 2 powi k"
  have x0: "x \<noteq> 0" using False by (simp add: x_def)
  define e where "e = binade \<bar>x\<bar>"
  define u :: rat where "u = 2 powi (e - 52)"
  have upos: "0 < u" by (simp add: u_def zero_less_power_int)
  have b: "2 powi e \<le> \<bar>x\<bar>" using binade_bounds [of "\<bar>x\<bar>"] x0 by (simp add: e_def)
  have absx: "\<bar>x\<bar> = of_int \<bar>m\<bar> * 2 powi k" by (simp add: x_def abs_mult)
  have kpos: "(0::rat) < 2 powi k" by (simp add: zero_less_power_int)
  have mb: "(of_int \<bar>m\<bar> :: rat) \<le> 2 ^ 53"
  proof -
    have "(of_int \<bar>m\<bar> :: rat) \<le> of_int (2 ^ 53)" using assms by (simp only: of_int_le_iff)
    then show ?thesis by simp
  qed
  have le: "(2::rat) powi (e - k) \<le> of_int \<bar>m\<bar>"
  proof -
    have "(2::rat) powi (e - k) = 2 powi e / 2 powi k" by (simp add: power_int_diff)
    also have "\<dots> \<le> \<bar>x\<bar> / 2 powi k"
      using b kpos by (intro divide_right_mono) simp_all
    also have "\<dots> = of_int \<bar>m\<bar>" using kpos by (simp add: absx)
    finally show ?thesis .
  qed
  have ek: "e - k \<le> 53"
  proof (rule ccontr)
    assume "\<not> e - k \<le> 53"
    then have "53 < e - k" by simp
    then have "(2::rat) powi 53 < 2 powi (e - k)" by (intro power_int_strict_increasing) simp_all
    with le mb show False by simp
  qed
  have flx: "fl x = of_int (round_even (x / u)) * u"
    using x0 by (simp add: fl_def e_def u_def Let_def)
  have xu: "x / u = of_int m * 2 powi (k - e + 52)"
  proof -
    have "(2::rat) powi (k - e + 52) = 2 powi k / 2 powi (e - 52)"
      using power_int_diff [of "2::rat" k "e - 52"] by (simp add: algebra_simps)
    then show ?thesis by (simp add: x_def u_def)
  qed
  have "\<exists>z. x / u = of_int z"
  proof (cases "0 \<le> k - e + 52")
    case True
    then have "(2::rat) powi (k - e + 52) = of_int (2 ^ nat (k - e + 52))"
      by (simp add: power_int_def)
    with xu have "x / u = of_int (m * 2 ^ nat (k - e + 52))" by simp
    then show ?thesis by blast
  next
    case False
    with ek have j: "k - e + 52 = -1" by simp
    then have ek53: "e - k = 53" by simp
    with le have "(2::rat) ^ 53 \<le> of_int \<bar>m\<bar>" by simp
    then have "(of_int (2 ^ 53) :: rat) \<le> of_int \<bar>m\<bar>" by simp
    then have "2 ^ 53 \<le> \<bar>m\<bar>" by (simp only: of_int_le_iff)
    with assms have "\<bar>m\<bar> = 2 ^ 53" by simp
    then have "m = 2 ^ 53 \<or> m = - (2 ^ 53)" by linarith
    then have "m = 2 * 2 ^ 52 \<or> m = 2 * (- (2 ^ 52))" by simp
    then obtain z where "m = 2 * z" by blast
    with xu j have "x / u = of_int z" by simp
    then show ?thesis by blast
  qed
  then obtain z where z: "x / u = of_int z" by blast
  have "fl x = (x / u) * u" by (simp add: flx z round_even_of_int)
  also have "\<dots> = x" using upos by simp
  finally show ?thesis by (simp add: x_def)
qed

lemma fl_of_int: "\<bar>m\<bar> \<le> 2 ^ 53 \<Longrightarrow> fl (of_int m) = of_int m"
  using fl_exact [of m 0] by simp

lemma fl_half: "fl (1 / 2) = 1 / 2"
  using fl_exact [of 1 "-1"] by simp

lemma fl_numeral: "\<bar>numeral n :: int\<bar> \<le> 2 ^ 53 \<Longrightarrow> fl (numeral n) = numeral n"
  using fl_of_int [of "numeral n"] by simp

subsection \<open>tm.h\<close>

lemma run_macro_P_MALLOC: "run_macro ''P_MALLOC'' [sz] p s = Some (c_malloc p s)"
  by (simp add: run_macro_def expand_macro_def tm_h_def run_tokens_def subst_token_def)

lemma run_macro_P_FREE: "run_macro ''P_FREE'' [ptr] p s = Some (c_free p s)"
  by (simp add: run_macro_def expand_macro_def tm_h_def run_tokens_def subst_token_def)

lemma run_macro_TM_MALLOC: "run_macro ''TM_MALLOC'' [sz] p s = Some (TxAlloc p s)"
  by (simp add: run_macro_def expand_macro_def tm_h_def run_tokens_def subst_token_def)

lemma run_macro_TM_FREE: "run_macro ''TM_FREE'' [ptr] p s = Some (TxFree p s)"
  by (simp add: run_macro_def expand_macro_def tm_h_def run_tokens_def subst_token_def)

text \<open>
  C8: In the TL2 flavour \<open>TM_EARLY_RELEASE(var)\<close> is a no-op. Whatever the argument,
  the macro expands to no token at all, and the empty statement that results leaves the
  read set of the transaction and the rest of the state as they were.
\<close>

theorem TM_EARLY_RELEASE_is_noop:
  "expand_macro tm_h ''TM_EARLY_RELEASE'' [var] = Some [] \<and>
   run_macro ''TM_EARLY_RELEASE'' [var] p s = Some s"
  by (simp add: run_macro_def expand_macro_def tm_h_def run_tokens_def)

text \<open>
  C10: \<open>P_MALLOC\<close> and \<open>P_FREE\<close> expand to plain \<open>malloc\<close> and \<open>free\<close>: a block \<open>p\<close> got
  through \<open>P_MALLOC\<close> is in neither log of the transaction and is still allocated after
  an abort, and a block \<open>q\<close> given to \<open>P_FREE\<close> is released at once and stays released
  after an abort. \<open>TM_MALLOC\<close> and \<open>TM_FREE\<close> expand to \<open>STM_MALLOC\<close> and \<open>STM_FREE\<close>,
  which are transactional: the block is logged, an allocation is taken back by an abort
  and a free only happens at the commit.
\<close>

theorem P_MALLOC_P_FREE_not_transactional:
  assumes "p \<notin> live s" and "p \<notin> set (alloc_log s)" and "p \<notin> set (free_log s)"
    and "q \<in> live s" and "q \<notin> set (alloc_log s)"
  shows "expand_macro tm_h ''P_MALLOC'' [sz] = Some ([''malloc'', ''(''] @ sz @ ['')'']) \<and>
    expand_macro tm_h ''P_FREE'' [ptr] = Some ([''free'', ''(''] @ ptr @ ['')'']) \<and>
    expand_macro tm_h ''TM_MALLOC'' [sz] = Some ([''STM_MALLOC'', ''(''] @ sz @ ['')'']) \<and>
    expand_macro tm_h ''TM_FREE'' [ptr] = Some ([''STM_FREE'', ''(''] @ ptr @ ['')'']) \<and>
    (\<exists>s1. run_macro ''P_MALLOC'' [sz] p s = Some s1 \<and> alloc_log s1 = alloc_log s \<and>
           free_log s1 = free_log s \<and> p \<in> live s1 \<and> p \<in> live (TxAbort s1)) \<and>
    (\<exists>s2. run_macro ''P_FREE'' [ptr] q s = Some s2 \<and> alloc_log s2 = alloc_log s \<and>
           free_log s2 = free_log s \<and> q \<notin> live s2 \<and> q \<notin> live (TxAbort s2)) \<and>
    (\<exists>s3. run_macro ''TM_MALLOC'' [sz] p s = Some s3 \<and> p \<in> set (alloc_log s3) \<and>
           p \<in> live s3 \<and> p \<notin> live (TxAbort s3) \<and> p \<in> live (TxCommit s3)) \<and>
    (\<exists>s4. run_macro ''TM_FREE'' [ptr] q s = Some s4 \<and> q \<in> set (free_log s4) \<and>
           q \<in> live s4 \<and> q \<in> live (TxAbort s4) \<and> q \<notin> live (TxCommit s4))"
proof -
  have e1: "expand_macro tm_h ''P_MALLOC'' [sz] = Some ([''malloc'', ''(''] @ sz @ ['')''])"
    by (simp add: expand_macro_def tm_h_def subst_token_def)
  have e2: "expand_macro tm_h ''P_FREE'' [ptr] = Some ([''free'', ''(''] @ ptr @ ['')''])"
    by (simp add: expand_macro_def tm_h_def subst_token_def)
  have e3: "expand_macro tm_h ''TM_MALLOC'' [sz] = Some ([''STM_MALLOC'', ''(''] @ sz @ ['')''])"
    by (simp add: expand_macro_def tm_h_def subst_token_def)
  have e4: "expand_macro tm_h ''TM_FREE'' [ptr] = Some ([''STM_FREE'', ''(''] @ ptr @ ['')''])"
    by (simp add: expand_macro_def tm_h_def subst_token_def)
  have r1: "\<exists>s1. run_macro ''P_MALLOC'' [sz] p s = Some s1 \<and> alloc_log s1 = alloc_log s \<and>
           free_log s1 = free_log s \<and> p \<in> live s1 \<and> p \<in> live (TxAbort s1)"
    using assms by (simp add: run_macro_P_MALLOC c_malloc_def TxAbort_def)
  have r2: "\<exists>s2. run_macro ''P_FREE'' [ptr] q s = Some s2 \<and> alloc_log s2 = alloc_log s \<and>
           free_log s2 = free_log s \<and> q \<notin> live s2 \<and> q \<notin> live (TxAbort s2)"
    using assms by (simp add: run_macro_P_FREE c_free_def TxAbort_def)
  have r3: "\<exists>s3. run_macro ''TM_MALLOC'' [sz] p s = Some s3 \<and> p \<in> set (alloc_log s3) \<and>
           p \<in> live s3 \<and> p \<notin> live (TxAbort s3) \<and> p \<in> live (TxCommit s3)"
    using assms by (simp add: run_macro_TM_MALLOC TxAlloc_def TxAbort_def TxCommit_def)
  have r4: "\<exists>s4. run_macro ''TM_FREE'' [ptr] q s = Some s4 \<and> q \<in> set (free_log s4) \<and>
           q \<in> live s4 \<and> q \<in> live (TxAbort s4) \<and> q \<notin> live (TxCommit s4)"
    using assms by (simp add: run_macro_TM_FREE TxFree_def TxAbort_def TxCommit_def)
  from e1 e2 e3 e4 r1 r2 r3 r4 show ?thesis by blast
qed

theorem P_MALLOC_P_FREE_not_transactional_witness:
  "(\<exists>s1. run_macro ''P_MALLOC'' [[''8'']] 2
            \<lparr>live = {1}, read_set = [], alloc_log = [], free_log = []\<rparr> = Some s1 \<and>
          alloc_log s1 = [] \<and> free_log s1 = [] \<and> 2 \<in> live s1 \<and> 2 \<in> live (TxAbort s1)) \<and>
   (\<exists>s3. run_macro ''TM_MALLOC'' [[''8'']] 2
            \<lparr>live = {1}, read_set = [], alloc_log = [], free_log = []\<rparr> = Some s3 \<and>
          2 \<in> set (alloc_log s3) \<and> 2 \<in> live s3 \<and> 2 \<notin> live (TxAbort s3) \<and>
          2 \<in> live (TxCommit s3))"
  using P_MALLOC_P_FREE_not_transactional
          [of 2 "\<lparr>live = {1}, read_set = [], alloc_log = [], free_log = []\<rparr>" 1 "[''8'']" "[''x'']"]
  by simp

subsection \<open>parseArgs\<close>

lemma io_bind_Inr: "io_bind m f = (out, Inr y) \<longleftrightarrow> (\<exists>o1 x o2. m = (o1, Inr x) \<and> f x = (o2, Inr y) \<and> out = o1 @ o2)"
  by (cases m) (auto simp: io_bind_def split: sum.splits prod.splits)

lemma io_then_Inr: "io_then m k = (out, Inr y) \<longleftrightarrow> (\<exists>o1 o2. m = (o1, Inr ()) \<and> k = (o2, Inr y) \<and> out = o1 @ o2)"
  by (auto simp: io_then_def io_bind_Inr)

lemma displayUsage_stops: "snd (displayUsage appName) = Inl (Exit 1)"
  by (simp add: displayUsage_def io_then_def io_bind_def printf_def puts_def io_stop_def)

lemma parseArgs_cases:
  assumes "parse_opts posix args = ((gp, n), non)"
  shows "snd (parseArgs posix appName args) = (if n + length non = 0 then Inr gp else Inl (Exit 1))"
    and "n + length non = 0 \<Longrightarrow> fst (parseArgs posix appName args) = []"
proof -
  obtain uo ur where u: "(displayUsage appName :: params io) = (uo, ur)" by (cases "displayUsage appName :: params io")
  have ur: "ur = Inl (Exit 1)" using displayUsage_stops [of appName, where 'a = params] u by simp
  show "snd (parseArgs posix appName args) = (if n + length non = 0 then Inr gp else Inl (Exit 1))"
    by (simp add: parseArgs_def assms io_then_def io_bind_def io_return_def u ur)
  show "n + length non = 0 \<Longrightarrow> fst (parseArgs posix appName args) = []"
    by (simp add: parseArgs_def assms io_then_def io_bind_def io_return_def)
qed

lemma parseArgs_Inr:
  "parseArgs posix appName args = (out, Inr gp) \<longleftrightarrow> out = [] \<and> parse_opts posix args = ((gp, 0), [])"
proof -
  obtain gp' n non where p: "parse_opts posix args = ((gp', n), non)"
    by (metis prod.exhaust)
  show ?thesis using parseArgs_cases [OF p, of appName]
    by (cases "parseArgs posix appName args") (auto simp: p split: if_splits)
qed

lemma parseArgs_Inl:
  "snd (parseArgs posix appName args) = Inl st \<longleftrightarrow>
     st = Exit 1 \<and> snd (fst (parse_opts posix args)) + length (snd (parse_opts posix args)) \<noteq> 0"
proof -
  obtain gp' n non where p: "parse_opts posix args = ((gp', n), non)"
    by (metis prod.exhaust)
  show ?thesis using parseArgs_cases(1) [OF p, of appName]
    by (auto simp: p split: if_splits)
qed

lemma foldl_parse_opt_other:
  "f \<notin> fst ` set evs \<Longrightarrow> fst (foldl parse_opt (gp, n) evs) f = gp f"
  by (induction evs arbitrary: gp n) (auto simp: parse_opt_def)

lemma foldl_parse_opt_count:
  "snd (foldl parse_opt (gp, n) evs) = n + length (filter (\<lambda>ev. fst ev \<notin> set ''cnqrtu'') evs)"
  by (induction evs arbitrary: gp n) (auto simp: parse_opt_def)

lemma getopt_run_chars:
  "(c, arg) \<in> set (fst (getopt_run posix os cs rest)) \<Longrightarrow>
     c = CHR ''?'' \<or> c \<in> set cs \<or> (\<exists>x \<in> set rest. c \<in> set x)"
proof (induction posix os cs rest rule: getopt_run.induct)
  case (1 posix optstring c' cs rest)
  then show ?case
    by (auto split: option.splits bool.splits if_splits list.splits prod.splits)
next
  case (2 posix optstring)
  then show ?case by simp
next
  case (3 posix optstring a rest)
  have "is_option a \<Longrightarrow> c \<in> set (tl a) \<Longrightarrow> c \<in> set a"
    by (cases a) (auto simp: is_option_def)
  with 3 show ?case
    by (auto split: if_splits prod.splits)
qed

lemma long_of_double_of_int:
  "LONG_MIN \<le> n \<Longrightarrow> n \<le> LONG_MAX \<Longrightarrow> long_of_double (of_int n) = Some n"
  by (simp add: long_of_double_def)

lemma double_of_long_exact: "\<bar>n\<bar> \<le> 2 ^ 53 \<Longrightarrow> double_of_long n = of_int n"
  by (simp add: double_of_long_def fl_of_int)

text \<open>
  C3: A flag among \<open>-c\<close>, \<open>-n\<close>, \<open>-q\<close>, \<open>-r\<close>, \<open>-t\<close>, \<open>-u\<close> that is omitted from the
  command line leaves its parameter at the default: clients 1, queries per transaction
  10, percent queried 90, relations 65536, transactions 67108864, percent user 80.
  Omitted means that \<open>getopt\<close> never returns the flag, which is so in particular when
  its letter occurs in no argument.
\<close>

theorem omitted_flag_takes_default:
  assumes "parseArgs posix appName args = (out, Inr gp)"
    and "(f, d) \<in> set [(PARAM_CLIENTS, 1), (PARAM_NUMBER, 10), (PARAM_QUERIES, 90),
                        (PARAM_RELATIONS, 65536), (PARAM_TRANSACTIONS, 67108864),
                        (PARAM_USER, 80)]"
    and "f \<notin> fst ` set (fst (getopt_run posix ''c:n:q:r:t:u:'' [] args)) \<or>
         (\<forall>a \<in> set args. f \<notin> set a)"
  shows "gp f = of_int d \<and> long_of_double (gp f) = Some d"
proof -
  obtain evs non where g: "getopt_run posix ''c:n:q:r:t:u:'' [] args = (evs, non)"
    by (cases "getopt_run posix ''c:n:q:r:t:u:'' [] args")
  have fq: "f \<noteq> CHR ''?''"
    using assms(2)
    by (auto simp: PARAM_CLIENTS_def PARAM_NUMBER_def PARAM_QUERIES_def PARAM_RELATIONS_def
        PARAM_TRANSACTIONS_def PARAM_USER_def)
  have notin: "f \<notin> fst ` set evs"
  proof
    assume "f \<in> fst ` set evs"
    then obtain arg where m: "(f, arg) \<in> set (fst (getopt_run posix ''c:n:q:r:t:u:'' [] args))"
      using g by auto
    from getopt_run_chars [OF m] fq have "\<exists>x \<in> set args. f \<in> set x" by simp
    with assms(3) m show False by force
  qed
  from assms(1) have "parse_opts posix args = ((gp, 0), [])" by (simp add: parseArgs_Inr)
  then have "gp = fst (foldl parse_opt (setDefaultParams (\<lambda>_. 0), 0) evs)"
    by (simp add: parse_opts_def g)
  then have gpf: "gp f = setDefaultParams (\<lambda>_. 0) f"
    using notin by (simp add: foldl_parse_opt_other)
  have "setDefaultParams (\<lambda>_. 0) f = of_int d"
    using assms(2)
    by (auto simp: setDefaultParams_def PARAM_CLIENTS_def PARAM_NUMBER_def PARAM_QUERIES_def
        PARAM_RELATIONS_def PARAM_TRANSACTIONS_def PARAM_USER_def PARAM_DEFAULT_CLIENTS_def
        PARAM_DEFAULT_NUMBER_def PARAM_DEFAULT_QUERIES_def PARAM_DEFAULT_RELATIONS_def
        PARAM_DEFAULT_TRANSACTIONS_def PARAM_DEFAULT_USER_def double_of_long_exact)
  with gpf have v: "gp f = of_int d" by simp
  have "LONG_MIN \<le> d \<and> d \<le> LONG_MAX"
    using assms(2) by (auto simp: LONG_MIN_def LONG_MAX_def)
  then show ?thesis using v by (simp add: long_of_double_of_int)
qed

theorem omitted_flag_takes_default_witness:
  "\<exists>out gp. parseArgs False ''./vacation'' [''-c4'', ''-n'', ''2''] = (out, Inr gp) \<and>
     gp PARAM_TRANSACTIONS = 67108864 \<and>
     long_of_double (gp PARAM_TRANSACTIONS) = Some 67108864"
proof -
  define gp where "gp = fst (fst (parse_opts False [''-c4'', ''-n'', ''2'']))"
  have "snd (fst (parse_opts False [''-c4'', ''-n'', ''2''])) = 0 \<and>
        snd (parse_opts False [''-c4'', ''-n'', ''2'']) = []"
    by (simp add: parse_opts_def opt_lookup_def is_option_def parse_opt_def)
  then have "parse_opts False [''-c4'', ''-n'', ''2''] = ((gp, 0), [])"
    unfolding gp_def by (metis prod.collapse)
  then have p: "parseArgs False ''./vacation'' [''-c4'', ''-n'', ''2''] = ([], Inr gp)"
    by (simp add: parseArgs_Inr)
  have n: "PARAM_TRANSACTIONS \<notin> fst ` set (fst (getopt_run False ''c:n:q:r:t:u:'' [] [''-c4'', ''-n'', ''2'']))"
    by (simp add: opt_lookup_def is_option_def PARAM_TRANSACTIONS_def)
  have m: "(PARAM_TRANSACTIONS, 67108864) \<in> set [(PARAM_CLIENTS, 1), (PARAM_NUMBER, 10),
      (PARAM_QUERIES, 90), (PARAM_RELATIONS, 65536), (PARAM_TRANSACTIONS, 67108864),
      (PARAM_USER, 80)]"
    by simp
  have "gp PARAM_TRANSACTIONS = of_int 67108864 \<and>
      long_of_double (gp PARAM_TRANSACTIONS) = Some 67108864"
    by (rule omitted_flag_takes_default [OF p m disjI1 [OF n]])
  then have "gp PARAM_TRANSACTIONS = 67108864 \<and>
      long_of_double (gp PARAM_TRANSACTIONS) = Some 67108864"
    unfolding of_int_numeral .
  with p show ?thesis by blast
qed

subsection \<open>initializeManager and cleanupManager\<close>

lemma shuffle_ids_perm:
  "shuffle_ids env n k (g, ids) = (g', ids') \<Longrightarrow> length ids = n \<Longrightarrow> 0 < n \<Longrightarrow>
     mset ids' = mset ids \<and> length ids' = n"
proof (induction k arbitrary: g ids)
  case 0
  then show ?case by simp
next
  case (Suc k)
  obtain r1 g1 where r1: "random_generate env g = (r1, g1)" by (cases "random_generate env g")
  obtain r2 g2 where r2: "random_generate env g1 = (r2, g2)" by (cases "random_generate env g1")
  define x where "x = r1 mod n"
  define y where "y = r2 mod n"
  define ids2 where "ids2 = (ids[x := ids ! y])[y := ids ! x]"
  have xy: "x < length ids" "y < length ids" using Suc.prems by (simp_all add: x_def y_def)
  have m: "mset ids2 = mset ids" unfolding ids2_def using xy by (simp add: mset_swap)
  have l: "length ids2 = n" unfolding ids2_def using Suc.prems by simp
  have "shuffle_ids env n k (g2, ids2) = (g', ids')"
    using Suc.prems(1) by (simp add: r1 r2 x_def y_def ids2_def Let_def)
  from Suc.IH [OF this l Suc.prems(3)] m show ?case by simp
qed

lemma shuffle_ids_zero: "shuffle_ids env 0 0 s = s"
  by simp

lemma populate_table_Inr:
  "populate_table env t ids (g, m, calls) = (out, Inr (g', m', calls')) \<Longrightarrow>
     out = [] \<and> (\<exists>new. calls' = calls @ new \<and> map fst (adds_of t new) = ids \<and>
        length new = length ids \<and> (\<forall>u. u \<noteq> t \<longrightarrow> adds_of u new = []) \<and>
        deleted_customers new = [] \<and>
        list_all (\<lambda>(i, n, p, st). st \<and> n \<in> {100, 200, 300, 400, 500} \<and> p \<in> {50, 60, 70, 80, 90})
          (adds_of t new))"
proof (induction ids arbitrary: g m calls out)
  case Nil
  then show ?case by (simp add: io_return_def)
next
  case (Cons i ids)
  obtain r1 g1 where r1: "random_generate env g = (r1, g1)" by (cases "random_generate env g")
  obtain r2 g2 where r2: "random_generate env g1 = (r2, g2)" by (cases "random_generate env g1")
  define num where "num = int (((r1 mod 5) + 1) * 100)"
  define price where "price = int (((r2 mod 5) * 10) + 50)"
  obtain status m1 where a: "manager_add env t m i num price = (status, m1)"
    by (cases "manager_add env t m i num price")
  have step: "populate_table env t (i # ids) (g, m, calls) =
      io_then (c_assert status) (populate_table env t ids (g2, m1, calls @ [Add t i num price status]))"
    using a by (simp add: r1 r2 num_def price_def Let_def)
  from Cons.prems step have st: status
    by (cases status) (simp_all add: io_then_def io_bind_def c_assert_def io_stop_def)
  with Cons.prems step
  have rec: "populate_table env t ids (g2, m1, calls @ [Add t i num price status]) = (out, Inr (g', m', calls'))"
    by (cases "populate_table env t ids (g2, m1, calls @ [Add t i num price status])")
       (simp add: io_then_def io_bind_def c_assert_def io_return_def)
  from Cons.IH [OF rec] obtain new where n: "out = []" "calls' = (calls @ [Add t i num price status]) @ new"
     "map fst (adds_of t new) = ids" "length new = length ids" "\<forall>u. u \<noteq> t \<longrightarrow> adds_of u new = []"
     "deleted_customers new = []"
     "list_all (\<lambda>(i, n, p, st). st \<and> n \<in> {100, 200, 300, 400, 500} \<and> p \<in> {50, 60, 70, 80, 90}) (adds_of t new)"
    by blast
  have nm: "num \<in> {100, 200, 300, 400, 500}"
  proof -
    have "r1 mod 5 < 5" by simp
    then have "r1 mod 5 \<in> {0, 1, 2, 3, 4}" by auto
    then show ?thesis unfolding num_def by auto
  qed
  have pr: "price \<in> {50, 60, 70, 80, 90}"
  proof -
    have "r2 mod 5 < 5" by simp
    then have "r2 mod 5 \<in> {0, 1, 2, 3, 4}" by auto
    then show ?thesis unfolding price_def by auto
  qed
  show ?case
    using n nm pr st
    by (intro conjI exI [of _ "Add t i num price status # new"]) simp_all
qed

lemma adds_of_append: "adds_of t (a @ b) = adds_of t a @ adds_of t b"
  by (induction t a rule: adds_of.induct) simp_all

lemma deleted_customers_append: "deleted_customers (a @ b) = deleted_customers a @ deleted_customers b"
  by (induction a rule: deleted_customers.induct) simp_all

lemma shuffle_ids_all:
  assumes "shuffle_ids env n n (g, ids) = (g', ids')" and "length ids = n"
  shows "mset ids' = mset ids \<and> length ids' = n"
proof (cases "n = 0")
  case True
  with assms show ?thesis by simp
next
  case False
  with shuffle_ids_perm [OF assms] show ?thesis by simp
qed

lemma populate_table_Inl:
  "snd (populate_table env t ids (g, m, calls)) = Inl st \<Longrightarrow> st = Abort"
proof (induction ids arbitrary: g m calls)
  case Nil
  then show ?case by (simp add: io_return_def)
next
  case (Cons i ids)
  obtain r1 g1 where r1: "random_generate env g = (r1, g1)" by (cases "random_generate env g")
  obtain r2 g2 where r2: "random_generate env g1 = (r2, g2)" by (cases "random_generate env g1")
  define num where "num = int (((r1 mod 5) + 1) * 100)"
  define price where "price = int (((r2 mod 5) * 10) + 50)"
  obtain status m1 where a: "manager_add env t m i num price = (status, m1)"
    by (cases "manager_add env t m i num price")
  have step: "populate_table env t (i # ids) (g, m, calls) =
      io_then (c_assert status) (populate_table env t ids (g2, m1, calls @ [Add t i num price status]))"
    using a by (simp add: r1 r2 num_def price_def Let_def)
  show ?case
  proof (cases status)
    case True
    with Cons.prems step
    have "snd (populate_table env t ids (g2, m1, calls @ [Add t i num price status])) = Inl st"
      by (cases "populate_table env t ids (g2, m1, calls @ [Add t i num price status])")
         (auto simp: io_then_def io_bind_def c_assert_def io_return_def split: sum.splits)
    then show ?thesis by (rule Cons.IH)
  next
    case False
    with Cons.prems step show ?thesis
      by (simp add: io_then_def io_bind_def c_assert_def io_stop_def)
  qed
qed

lemma populate_table_ok:
  assumes "\<forall>m i n p. fst (manager_add env t m i n p)"
  shows "\<exists>g' m' calls'. populate_table env t ids (g, m, calls) = ([], Inr (g', m', calls'))"
proof (induction ids arbitrary: g m calls)
  case Nil
  then show ?case by (simp add: io_return_def)
next
  case (Cons i ids)
  obtain r1 g1 where r1: "random_generate env g = (r1, g1)" by (cases "random_generate env g")
  obtain r2 g2 where r2: "random_generate env g1 = (r2, g2)" by (cases "random_generate env g1")
  define num where "num = int (((r1 mod 5) + 1) * 100)"
  define price where "price = int (((r2 mod 5) * 10) + 50)"
  obtain status m1 where a: "manager_add env t m i num price = (status, m1)"
    by (cases "manager_add env t m i num price")
  have st: status using assms a by (metis fst_conv)
  have step: "populate_table env t (i # ids) (g, m, calls) =
      io_then (c_assert status) (populate_table env t ids (g2, m1, calls @ [Add t i num price status]))"
    using a by (simp add: r1 r2 num_def price_def Let_def)
  from Cons.IH [of g2 m1 "calls @ [Add t i num price status]"] obtain g' m' calls'
    where "populate_table env t ids (g2, m1, calls @ [Add t i num price status]) = ([], Inr (g', m', calls'))"
    by blast
  with step st show ?case
    by (simp add: io_then_def io_bind_def c_assert_def io_return_def)
qed

lemma init_tables_Inr:
  "init_tables env n ts (g, ids, m, calls) = (out, Inr (g', ids', m', calls')) \<Longrightarrow>
   length ids = n \<Longrightarrow> distinct ts \<Longrightarrow>
     out = [] \<and> (\<exists>new. calls' = calls @ new \<and> length new = length ts * n \<and>
        deleted_customers new = [] \<and>
        (\<forall>t. (t \<in> set ts \<longrightarrow> mset (map fst (adds_of t new)) = mset ids \<and>
                 list_all (\<lambda>(i, n, p, st). st \<and> n \<in> {100, 200, 300, 400, 500} \<and> p \<in> {50, 60, 70, 80, 90})
                   (adds_of t new)) \<and>
             (t \<notin> set ts \<longrightarrow> adds_of t new = [])))"
proof (induction ts arbitrary: g ids m calls out)
  case Nil
  then show ?case by (simp add: io_return_def)
next
  case (Cons t ts)
  obtain g1 ids1 where sh: "shuffle_ids env n n (g, ids) = (g1, ids1)"
    by (cases "shuffle_ids env n n (g, ids)")
  from shuffle_ids_all [OF sh Cons.prems(2)] have p1: "mset ids1 = mset ids" "length ids1 = n"
    by simp_all
  have step: "init_tables env n (t # ts) (g, ids, m, calls) =
     io_bind (populate_table env t ids1 (g1, m, calls))
       (\<lambda>s2. case s2 of (g2, m2, calls2) \<Rightarrow> init_tables env n ts (g2, ids1, m2, calls2))"
    by (simp add: sh split_def)
  from Cons.prems(1) obtain o1 g2 m2 calls2 o2 where
    pt: "populate_table env t ids1 (g1, m, calls) = (o1, Inr (g2, m2, calls2))" and
    it: "init_tables env n ts (g2, ids1, m2, calls2) = (o2, Inr (g', ids', m', calls'))" and
    o: "out = o1 @ o2"
    unfolding step io_bind_Inr by (auto split: prod.splits)
  from populate_table_Inr [OF pt] obtain new1 where n1: "o1 = []" "calls2 = calls @ new1"
    "map fst (adds_of t new1) = ids1" "length new1 = length ids1"
    "\<forall>u. u \<noteq> t \<longrightarrow> adds_of u new1 = []" "deleted_customers new1 = []"
    "list_all (\<lambda>(i, n, p, st). st \<and> n \<in> {100, 200, 300, 400, 500} \<and> p \<in> {50, 60, 70, 80, 90}) (adds_of t new1)"
    by blast
  from Cons.prems(3) have d: "distinct ts" "t \<notin> set ts" by simp_all
  from Cons.IH [OF it p1(2) d(1)] obtain new2 where n2: "o2 = []" "calls' = calls2 @ new2"
    "length new2 = length ts * n" "deleted_customers new2 = []"
    "\<forall>u. (u \<in> set ts \<longrightarrow> mset (map fst (adds_of u new2)) = mset ids1 \<and>
         list_all (\<lambda>(i, n, p, st). st \<and> n \<in> {100, 200, 300, 400, 500} \<and> p \<in> {50, 60, 70, 80, 90}) (adds_of u new2)) \<and>
       (u \<notin> set ts \<longrightarrow> adds_of u new2 = [])"
    by blast
  have "\<forall>u. (u \<in> set (t # ts) \<longrightarrow> mset (map fst (adds_of u (new1 @ new2))) = mset ids \<and>
         list_all (\<lambda>(i, n, p, st). st \<and> n \<in> {100, 200, 300, 400, 500} \<and> p \<in> {50, 60, 70, 80, 90}) (adds_of u (new1 @ new2))) \<and>
       (u \<notin> set (t # ts) \<longrightarrow> adds_of u (new1 @ new2) = [])"
  proof
    fix u
    show "(u \<in> set (t # ts) \<longrightarrow> mset (map fst (adds_of u (new1 @ new2))) = mset ids \<and>
         list_all (\<lambda>(i, n, p, st). st \<and> n \<in> {100, 200, 300, 400, 500} \<and> p \<in> {50, 60, 70, 80, 90}) (adds_of u (new1 @ new2))) \<and>
       (u \<notin> set (t # ts) \<longrightarrow> adds_of u (new1 @ new2) = [])"
    proof (cases "u = t")
      case True
      with d(2) n2(5) have "adds_of u new2 = []" by blast
      with True n1 p1 show ?thesis by (simp add: adds_of_append)
    next
      case False
      with n1(5) have e: "adds_of u new1 = []" by blast
      from n2(5) have "(u \<in> set ts \<longrightarrow> mset (map fst (adds_of u new2)) = mset ids1 \<and>
         list_all (\<lambda>(i, n, p, st). st \<and> n \<in> {100, 200, 300, 400, 500} \<and> p \<in> {50, 60, 70, 80, 90}) (adds_of u new2)) \<and>
       (u \<notin> set ts \<longrightarrow> adds_of u new2 = [])" by blast
      with False e p1 show ?thesis by (simp add: adds_of_append)
    qed
  qed
  moreover have "calls' = calls @ (new1 @ new2)" using n1 n2 by simp
  moreover have "length (new1 @ new2) = length (t # ts) * n" using n1 n2 p1 by simp
  moreover have "deleted_customers (new1 @ new2) = []" using n1 n2 by (simp add: deleted_customers_append)
  moreover have "out = []" using o n1 n2 by simp
  ultimately show ?case by blast
qed

lemma init_tables_Inl:
  "snd (init_tables env n ts (g, ids, m, calls)) = Inl st \<Longrightarrow> st = Abort"
proof (induction ts arbitrary: g ids m calls)
  case Nil
  then show ?case by (simp add: io_return_def)
next
  case (Cons t ts)
  obtain g1 ids1 where sh: "shuffle_ids env n n (g, ids) = (g1, ids1)"
    by (cases "shuffle_ids env n n (g, ids)")
  have step: "init_tables env n (t # ts) (g, ids, m, calls) =
     io_bind (populate_table env t ids1 (g1, m, calls))
       (\<lambda>s2. case s2 of (g2, m2, calls2) \<Rightarrow> init_tables env n ts (g2, ids1, m2, calls2))"
    by (simp add: sh split_def)
  obtain o1 r1 where pt: "populate_table env t ids1 (g1, m, calls) = (o1, r1)"
    by (cases "populate_table env t ids1 (g1, m, calls)")
  show ?case
  proof (cases r1)
    case (Inl s)
    with pt populate_table_Inl [of env t ids1 g1 m calls s] have "s = Abort" by simp
    with Cons.prems step pt Inl show ?thesis by (simp add: io_bind_def)
  next
    case (Inr s2)
    obtain g2 m2 calls2 where s2: "s2 = (g2, m2, calls2)" by (cases s2)
    from Cons.prems step pt Inr s2
    have "snd (init_tables env n ts (g2, ids1, m2, calls2)) = Inl st"
      by (cases "init_tables env n ts (g2, ids1, m2, calls2)") (simp add: io_bind_def)
    then show ?thesis by (rule Cons.IH)
  qed
qed

lemma init_tables_ok:
  assumes "\<forall>t m i n p. fst (manager_add env t m i n p)"
  shows "\<exists>g' ids' m' calls'. init_tables env n ts (g, ids, m, calls) = ([], Inr (g', ids', m', calls'))"
proof (induction ts arbitrary: g ids m calls)
  case Nil
  then show ?case by (simp add: io_return_def)
next
  case (Cons t ts)
  obtain g1 ids1 where sh: "shuffle_ids env n n (g, ids) = (g1, ids1)"
    by (cases "shuffle_ids env n n (g, ids)")
  from populate_table_ok [of env t ids1 g1 m calls] assms obtain g2 m2 calls2 where
    pt: "populate_table env t ids1 (g1, m, calls) = ([], Inr (g2, m2, calls2))" by blast
  from Cons.IH [of g2 ids1 m2 calls2] obtain g' ids' m' calls' where
    "init_tables env n ts (g2, ids1, m2, calls2) = ([], Inr (g', ids', m', calls'))" by blast
  with pt sh show ?case by (simp add: io_bind_def)
qed


lemma initial_ids:
  "distinct (map (\<lambda>i. int i + 1) [0..<nat n])"
  "set (map (\<lambda>i. int i + 1) [0..<nat n]) = {1..n}"
proof -
  show "distinct (map (\<lambda>i. int i + 1) [0..<nat n])"
    by (simp add: distinct_map inj_on_def)
  show "set (map (\<lambda>i. int i + 1) [0..<nat n]) = {1..n}"
  proof (rule set_eqI)
    fix x
    show "x \<in> set (map (\<lambda>i. int i + 1) [0..<nat n]) \<longleftrightarrow> x \<in> {1..n}"
    proof
      assume "x \<in> set (map (\<lambda>i. int i + 1) [0..<nat n])"
      then show "x \<in> {1..n}" by auto
    next
      assume a: "x \<in> {1..n}"
      then have "x = int (nat (x - 1)) + 1" "nat (x - 1) < nat n" by auto
      then show "x \<in> set (map (\<lambda>i. int i + 1) [0..<nat n])"
        by (metis (mono_tags, lifting) atLeast0LessThan image_eqI lessThan_iff list.set_map set_upt)
    qed
  qed
qed

lemma all_tables: "t \<in> set [CAR, FLIGHT, ROOM, CUSTOMER]"
  by (cases t) simp_all

lemma initializeManager_Inr:
  assumes "initializeManager env gp = (out, Inr (m, calls))"
  shows "\<exists>numRelation. long_of_double (gp PARAM_RELATIONS) = Some numRelation \<and>
     out = [(Stdout, ''Initializing manager... ''), (Stdout, ''done.'' @ nl)] \<and>
     length calls = 4 * nat numRelation \<and> deleted_customers calls = [] \<and>
     (\<forall>t. length (adds_of t calls) = nat numRelation \<and> distinct (map fst (adds_of t calls)) \<and>
          set (map fst (adds_of t calls)) = {1..numRelation} \<and>
          list_all (\<lambda>(i, n, p, st). st \<and> n \<in> {100, 200, 300, 400, 500} \<and> p \<in> {50, 60, 70, 80, 90})
            (adds_of t calls))"
proof -
  from assms obtain g0 where g0: "random_alloc env = Some g0"
    by (cases "random_alloc env")
       (simp_all add: initializeManager_def io_then_def io_bind_def printf_def io_stop_def)
  from assms obtain m0 where m0: "manager_alloc env = Some m0"
    by (cases "manager_alloc env")
       (simp_all add: initializeManager_def io_then_def io_bind_def printf_def io_stop_def g0)
  from assms obtain numRelation where nr: "long_of_double (gp PARAM_RELATIONS) = Some numRelation"
    by (cases "long_of_double (gp PARAM_RELATIONS)")
       (simp_all add: initializeManager_def io_then_def io_bind_def printf_def io_stop_def g0 m0)
  define ids0 where "ids0 = map (\<lambda>i. int i + 1) [0..<nat numRelation]"
  obtain o1 r1 where it: "init_tables env (nat numRelation) [CAR, FLIGHT, ROOM, CUSTOMER] (g0, ids0, m0, []) = (o1, r1)"
    by (cases "init_tables env (nat numRelation) [CAR, FLIGHT, ROOM, CUSTOMER] (g0, ids0, m0, [])")
  from assms have "\<exists>g ids. r1 = Inr (g, ids, m, calls) \<and> out = [(Stdout, ''Initializing manager... '')] @ o1 @ [(Stdout, ''done.'' @ nl)]"
    using it
    by (auto simp: initializeManager_def io_then_def io_bind_def printf_def puts_def io_stop_def
        io_return_def g0 m0 nr ids0_def split: if_splits sum.splits prod.splits)
  then obtain g ids where r1: "r1 = Inr (g, ids, m, calls)"
    and out: "out = [(Stdout, ''Initializing manager... '')] @ o1 @ [(Stdout, ''done.'' @ nl)]"
    by blast
  have l0: "length ids0 = nat numRelation" by (simp add: ids0_def)
  from init_tables_Inr [OF it [unfolded r1] l0] obtain new where
    n: "o1 = []" "calls = [] @ new" "length new = length [CAR, FLIGHT, ROOM, CUSTOMER] * nat numRelation"
      "deleted_customers new = []"
      "\<forall>t. (t \<in> set [CAR, FLIGHT, ROOM, CUSTOMER] \<longrightarrow> mset (map fst (adds_of t new)) = mset ids0 \<and>
          list_all (\<lambda>(i, n, p, st). st \<and> n \<in> {100, 200, 300, 400, 500} \<and> p \<in> {50, 60, 70, 80, 90}) (adds_of t new)) \<and>
        (t \<notin> set [CAR, FLIGHT, ROOM, CUSTOMER] \<longrightarrow> adds_of t new = [])"
    by auto
  have per: "\<forall>t. length (adds_of t calls) = nat numRelation \<and> distinct (map fst (adds_of t calls)) \<and>
          set (map fst (adds_of t calls)) = {1..numRelation} \<and>
          list_all (\<lambda>(i, n, p, st). st \<and> n \<in> {100, 200, 300, 400, 500} \<and> p \<in> {50, 60, 70, 80, 90})
            (adds_of t calls)"
  proof
    fix t
    from n(5) all_tables [of t] have ms: "mset (map fst (adds_of t new)) = mset ids0"
      and la: "list_all (\<lambda>(i, n, p, st). st \<and> n \<in> {100, 200, 300, 400, 500} \<and> p \<in> {50, 60, 70, 80, 90}) (adds_of t new)"
      by blast+
    from ms have "length (map fst (adds_of t new)) = length ids0" by (rule mset_eq_length)
    then have 1: "length (adds_of t new) = nat numRelation" using l0 by simp
    from ms have 2: "distinct (map fst (adds_of t new))"
      using initial_ids(1) [of numRelation] mset_eq_imp_distinct_iff [OF ms] by (simp add: ids0_def)
    from ms have 3: "set (map fst (adds_of t new)) = {1..numRelation}"
      using initial_ids(2) [of numRelation] mset_eq_setD [OF ms] by (simp add: ids0_def)
    from 1 2 3 la n(2)
    show "length (adds_of t calls) = nat numRelation \<and> distinct (map fst (adds_of t calls)) \<and>
          set (map fst (adds_of t calls)) = {1..numRelation} \<and>
          list_all (\<lambda>(i, n, p, st). st \<and> n \<in> {100, 200, 300, 400, 500} \<and> p \<in> {50, 60, 70, 80, 90})
            (adds_of t calls)"
      by simp
  qed
  from n out have "out = [(Stdout, ''Initializing manager... ''), (Stdout, ''done.'' @ nl)]"
    "length calls = 4 * nat numRelation" "deleted_customers calls = []"
    by simp_all
  with nr per show ?thesis by blast
qed

lemma initializeManager_Inl:
  assumes "snd (initializeManager env gp) = Inl st"
  shows "st = Abort \<or> st = Undefined"
proof (cases "random_alloc env")
  case None
  with assms show ?thesis
    by (simp add: initializeManager_def io_then_def io_bind_def printf_def io_stop_def)
next
  case g0: (Some g0)
  show ?thesis
  proof (cases "manager_alloc env")
    case None
    with assms g0 show ?thesis
      by (simp add: initializeManager_def io_then_def io_bind_def printf_def io_stop_def)
  next
    case m0: (Some m0)
    show ?thesis
    proof (cases "long_of_double (gp PARAM_RELATIONS)")
      case None
      with assms g0 m0 show ?thesis
        by (simp add: initializeManager_def io_then_def io_bind_def printf_def io_stop_def)
    next
      case nr: (Some numRelation)
      define ids0 where "ids0 = map (\<lambda>i. int i + 1) [0..<nat numRelation]"
      obtain o1 r1 where it: "init_tables env (nat numRelation) [CAR, FLIGHT, ROOM, CUSTOMER] (g0, ids0, m0, []) = (o1, r1)"
        by (cases "init_tables env (nat numRelation) [CAR, FLIGHT, ROOM, CUSTOMER] (g0, ids0, m0, [])")
      show ?thesis
      proof (cases r1)
        case (Inl s)
        with it init_tables_Inl [of env "nat numRelation" "[CAR, FLIGHT, ROOM, CUSTOMER]" g0 ids0 m0 "[]" s]
        have "s = Abort" by simp
        with assms g0 m0 nr it Inl show ?thesis
          by (auto simp: initializeManager_def io_then_def io_bind_def printf_def io_stop_def
              ids0_def split: if_splits)
      next
        case (Inr s)
        with assms g0 m0 nr it show ?thesis
          by (auto simp: initializeManager_def io_then_def io_bind_def printf_def io_stop_def
              puts_def io_return_def ids0_def split: if_splits prod.splits)
      qed
    qed
  qed
qed

lemma initializeManager_ok:
  assumes "random_alloc env \<noteq> None" and "manager_alloc env \<noteq> None"
    and "long_of_double (gp PARAM_RELATIONS) = Some numRelation"
    and "numRelation \<le> 0 \<or> (numRelation * 8 < 2 ^ 64 \<and> malloc env (size_t_of (numRelation * 8)))"
    and "\<forall>t m i n p. fst (manager_add env t m i n p)"
  shows "\<exists>m calls. initializeManager env gp =
           ([(Stdout, ''Initializing manager... ''), (Stdout, ''done.'' @ nl)], Inr (m, calls))"
proof -
  from assms(1) obtain g0 where g0: "random_alloc env = Some g0" by blast
  from assms(2) obtain m0 where m0: "manager_alloc env = Some m0" by blast
  define ids0 where "ids0 = map (\<lambda>i. int i + 1) [0..<nat numRelation]"
  from init_tables_ok [OF assms(5), of "nat numRelation" "[CAR, FLIGHT, ROOM, CUSTOMER]" g0 ids0 m0 "[]"]
  obtain g ids m calls where
    "init_tables env (nat numRelation) [CAR, FLIGHT, ROOM, CUSTOMER] (g0, ids0, m0, []) = ([], Inr (g, ids, m, calls))"
    by blast
  with assms(3,4) show ?thesis
    by (auto simp: initializeManager_def io_then_def io_bind_def printf_def io_stop_def
        puts_def io_return_def ids0_def g0 m0)
qed

lemma cleanup_customer_fold:
  "fold (cleanup_customer env) xs (m, calls) = (m', calls') \<Longrightarrow>
     calls' = calls @ map (\<lambda>i. DeleteCustomer (int i + 1)) xs"
proof (induction xs arbitrary: m calls)
  case Nil
  then show ?case by simp
next
  case (Cons x xs)
  have step: "cleanup_customer env x (m, calls) =
      (snd (manager_deleteCustomer_seq env m (int x + 1)), calls @ [DeleteCustomer (int x + 1)])"
    by (simp add: cleanup_customer_def)
  from Cons.prems have "fold (cleanup_customer env) xs (cleanup_customer env x (m, calls)) = (m', calls')"
    by simp
  then have "fold (cleanup_customer env) xs
          (snd (manager_deleteCustomer_seq env m (int x + 1)), calls @ [DeleteCustomer (int x + 1)]) =
        (m', calls')"
    unfolding step .
  from Cons.IH [OF this] show ?case by simp
qed

lemma cleanup_items_fold:
  "fold (cleanup_items env) xs s = s' \<Longrightarrow>
     deleted_customers (snd s') = deleted_customers (snd s) \<and> adds_of t (snd s') = adds_of t (snd s)"
proof (induction xs arbitrary: s)
  case Nil
  then show ?case by simp
next
  case (Cons x xs)
  have "deleted_customers (snd (cleanup_items env x s)) = deleted_customers (snd s) \<and>
        adds_of t (snd (cleanup_items env x s)) = adds_of t (snd s)"
    by (cases s) (simp add: cleanup_items_def Let_def deleted_customers_append adds_of_append)
  with Cons show ?case by simp
qed

lemma deleted_customers_map: "deleted_customers (map (\<lambda>i. DeleteCustomer (f i)) xs) = map f xs"
  by (induction xs) simp_all

lemma adds_of_map_delete: "adds_of t (map (\<lambda>i. DeleteCustomer (f i)) xs) = []"
  by (induction xs) simp_all

lemma cleanupManager_Inr:
  assumes "cleanupManager env gp (m, calls) = (out, Inr (m', calls'))"
  shows "\<exists>numRelation. long_of_double (gp PARAM_RELATIONS) = Some numRelation \<and> out = [] \<and>
     deleted_customers calls' = deleted_customers calls @ map (\<lambda>i. int i + 1) [0..<nat numRelation] \<and>
     (\<forall>t. adds_of t calls' = adds_of t calls)"
proof -
  from assms obtain numRelation where nr: "long_of_double (gp PARAM_RELATIONS) = Some numRelation"
    by (cases "long_of_double (gp PARAM_RELATIONS)") (simp_all add: cleanupManager_def io_stop_def)
  obtain m1 calls1 where c1: "fold (cleanup_customer env) [0..<nat numRelation] (m, calls) = (m1, calls1)"
    by (cases "fold (cleanup_customer env) [0..<nat numRelation] (m, calls)")
  from cleanup_customer_fold [OF c1]
  have calls1: "calls1 = calls @ map (\<lambda>i. DeleteCustomer (int i + 1)) [0..<nat numRelation]" .
  from assms have f: "fold (cleanup_items env) [0..<nat numRelation] (m1, calls1) = (m', calls')" and o: "out = []"
    by (simp_all add: cleanupManager_def nr c1 io_return_def)
  have "\<forall>t. deleted_customers calls' = deleted_customers calls1 \<and> adds_of t calls' = adds_of t calls1"
    using cleanup_items_fold [OF f] by simp
  then show ?thesis using nr o calls1
    by (simp add: deleted_customers_append adds_of_append deleted_customers_map adds_of_map_delete)
qed

lemma cleanupManager_ok:
  assumes "long_of_double (gp PARAM_RELATIONS) = Some numRelation"
  shows "\<exists>m' calls'. cleanupManager env gp s = ([], Inr (m', calls'))"
  using assms by (simp add: cleanupManager_def io_return_def)

lemma demo_env_adds: "\<forall>t m i n p. fst (manager_add demo_env t m i n p)"
  by (auto simp: manager_add_def addCustomer_def demo_env_def split: table.splits)

lemma manager_calls_append:
  "manager_calls env (a @ b) m =
     (case manager_calls env a m of None \<Rightarrow> None | Some m' \<Rightarrow> manager_calls env b m')"
  by (induction a arbitrary: m) (simp_all split: option.splits)

lemma manager_call_add:
  "manager_add env t m i n p = (st, m') \<Longrightarrow> manager_call env (Add t i n p st) m = Some m'"
  by (cases t) (auto simp: manager_add_def addCustomer_def)

lemma populate_table_calls:
  "populate_table env t ids (g, m, calls) = (out, Inr (g', m', calls')) \<Longrightarrow>
     \<exists>new. calls' = calls @ new \<and> manager_calls env new m = Some m'"
proof (induction ids arbitrary: g m calls out)
  case Nil
  then show ?case by (simp add: io_return_def)
next
  case (Cons i ids)
  obtain r1 g1 where r1: "random_generate env g = (r1, g1)" by (cases "random_generate env g")
  obtain r2 g2 where r2: "random_generate env g1 = (r2, g2)" by (cases "random_generate env g1")
  define num where "num = int (((r1 mod 5) + 1) * 100)"
  define price where "price = int (((r2 mod 5) * 10) + 50)"
  obtain status m1 where a: "manager_add env t m i num price = (status, m1)"
    by (cases "manager_add env t m i num price")
  have step: "populate_table env t (i # ids) (g, m, calls) =
      io_then (c_assert status) (populate_table env t ids (g2, m1, calls @ [Add t i num price status]))"
    using a by (simp add: r1 r2 num_def price_def Let_def)
  from Cons.prems step have st: status
    by (cases status) (simp_all add: io_then_def io_bind_def c_assert_def io_stop_def)
  with Cons.prems step
  have rec: "populate_table env t ids (g2, m1, calls @ [Add t i num price status]) = (out, Inr (g', m', calls'))"
    by (cases "populate_table env t ids (g2, m1, calls @ [Add t i num price status])")
       (simp add: io_then_def io_bind_def c_assert_def io_return_def)
  from Cons.IH [OF rec] obtain new where
    n: "calls' = (calls @ [Add t i num price status]) @ new" "manager_calls env new m1 = Some m'"
    by blast
  have "manager_calls env (Add t i num price status # new) m = Some m'"
    using manager_call_add [OF a] n(2) by simp
  with n(1) show ?case by (intro exI [of _ "Add t i num price status # new"]) simp
qed

lemma init_tables_calls:
  "init_tables env n ts (g, ids, m, calls) = (out, Inr (g', ids', m', calls')) \<Longrightarrow>
     \<exists>new. calls' = calls @ new \<and> manager_calls env new m = Some m'"
proof (induction ts arbitrary: g ids m calls out)
  case Nil
  then show ?case by (simp add: io_return_def)
next
  case (Cons t ts)
  obtain g1 ids1 where sh: "shuffle_ids env n n (g, ids) = (g1, ids1)"
    by (cases "shuffle_ids env n n (g, ids)")
  have step: "init_tables env n (t # ts) (g, ids, m, calls) =
     io_bind (populate_table env t ids1 (g1, m, calls))
       (\<lambda>s2. case s2 of (g2, m2, calls2) \<Rightarrow> init_tables env n ts (g2, ids1, m2, calls2))"
    by (simp add: sh split_def)
  from Cons.prems obtain o1 g2 m2 calls2 o2 where
    pt: "populate_table env t ids1 (g1, m, calls) = (o1, Inr (g2, m2, calls2))" and
    it: "init_tables env n ts (g2, ids1, m2, calls2) = (o2, Inr (g', ids', m', calls'))"
    unfolding step io_bind_Inr by (auto split: prod.splits)
  from populate_table_calls [OF pt] obtain new1 where
    n1: "calls2 = calls @ new1" "manager_calls env new1 m = Some m2" by blast
  from Cons.IH [OF it] obtain new2 where
    n2: "calls' = calls2 @ new2" "manager_calls env new2 m2 = Some m'" by blast
  from n1 n2 show ?case
    by (intro exI [of _ "new1 @ new2"]) (simp add: manager_calls_append)
qed

lemma initializeManager_calls:
  assumes "initializeManager env gp = (out, Inr (m, calls))"
  shows "\<exists>m0. manager_alloc env = Some m0 \<and> manager_calls env calls m0 = Some m"
proof -
  from assms obtain g0 where g0: "random_alloc env = Some g0"
    by (cases "random_alloc env")
       (simp_all add: initializeManager_def io_then_def io_bind_def printf_def io_stop_def)
  from assms obtain m0 where m0: "manager_alloc env = Some m0"
    by (cases "manager_alloc env")
       (simp_all add: initializeManager_def io_then_def io_bind_def printf_def io_stop_def g0)
  from assms obtain numRelation where nr: "long_of_double (gp PARAM_RELATIONS) = Some numRelation"
    by (cases "long_of_double (gp PARAM_RELATIONS)")
       (simp_all add: initializeManager_def io_then_def io_bind_def printf_def io_stop_def g0 m0)
  define ids0 where "ids0 = map (\<lambda>i. int i + 1) [0..<nat numRelation]"
  obtain o1 r1 where it: "init_tables env (nat numRelation) [CAR, FLIGHT, ROOM, CUSTOMER] (g0, ids0, m0, []) = (o1, r1)"
    by (cases "init_tables env (nat numRelation) [CAR, FLIGHT, ROOM, CUSTOMER] (g0, ids0, m0, [])")
  from assms have "\<exists>g ids. r1 = Inr (g, ids, m, calls)"
    using it
    by (auto simp: initializeManager_def io_then_def io_bind_def printf_def puts_def io_stop_def
        io_return_def g0 m0 nr ids0_def split: if_splits sum.splits prod.splits)
  then obtain g ids where r1: "r1 = Inr (g, ids, m, calls)" by blast
  from init_tables_calls [OF it [unfolded r1]] have "manager_calls env calls m0 = Some m" by simp
  with m0 show ?thesis by simp
qed

lemma cleanup_customer_calls:
  "fold (cleanup_customer env) xs (m, calls) = (m', calls') \<Longrightarrow>
     \<exists>new. calls' = calls @ new \<and> manager_calls env new m = Some m'"
proof (induction xs arbitrary: m calls)
  case Nil
  then show ?case by simp
next
  case (Cons x xs)
  define m1 where "m1 = snd (manager_deleteCustomer_seq env m (int x + 1))"
  have step: "cleanup_customer env x (m, calls) = (m1, calls @ [DeleteCustomer (int x + 1)])"
    by (simp add: cleanup_customer_def m1_def)
  from Cons.prems have "fold (cleanup_customer env) xs (cleanup_customer env x (m, calls)) = (m', calls')"
    by simp
  then have "fold (cleanup_customer env) xs (m1, calls @ [DeleteCustomer (int x + 1)]) = (m', calls')"
    unfolding step .
  from Cons.IH [OF this] obtain new where
    n: "calls' = (calls @ [DeleteCustomer (int x + 1)]) @ new" "manager_calls env new m1 = Some m'"
    by blast
  then show ?case
    by (intro exI [of _ "DeleteCustomer (int x + 1) # new"]) (simp add: m1_def)
qed

lemma cleanup_items_calls:
  "fold (cleanup_items env) xs (m, calls) = (m', calls') \<Longrightarrow>
     \<exists>new. calls' = calls @ new \<and> manager_calls env new m = Some m'"
proof (induction xs arbitrary: m calls)
  case Nil
  then show ?case by simp
next
  case (Cons x xs)
  define nc where "nc = manager_queryCar_seq env m (int x + 1)"
  define m1 where "m1 = snd (manager_deleteCar_seq env m (int x + 1) nc)"
  define m2 where "m2 = snd (manager_deleteFlight_seq env m1 (int x + 1))"
  define nr where "nr = manager_queryRoom_seq env m2 (int x + 1)"
  define m3 where "m3 = snd (manager_deleteRoom_seq env m2 (int x + 1) nr)"
  define three where "three = [DeleteCar (int x + 1) nc, DeleteFlight (int x + 1), DeleteRoom (int x + 1) nr]"
  have step: "cleanup_items env x (m, calls) = (m3, calls @ three)"
    by (simp add: cleanup_items_def Let_def nc_def m1_def m2_def nr_def m3_def three_def)
  have t: "manager_calls env three m = Some m3"
    by (simp add: three_def nc_def m1_def m2_def nr_def m3_def)
  from Cons.prems have "fold (cleanup_items env) xs (cleanup_items env x (m, calls)) = (m', calls')"
    by simp
  then have "fold (cleanup_items env) xs (m3, calls @ three) = (m', calls')"
    unfolding step .
  from Cons.IH [OF this] obtain new where
    n: "calls' = (calls @ three) @ new" "manager_calls env new m3 = Some m'"
    by blast
  then show ?case using t
    by (intro exI [of _ "three @ new"]) (simp add: manager_calls_append)
qed

lemma cleanupManager_calls:
  assumes "cleanupManager env gp (m, calls) = (out, Inr (m', calls'))"
  shows "\<exists>new. calls' = calls @ new \<and> manager_calls env new m = Some m'"
proof -
  from assms obtain numRelation where nr: "long_of_double (gp PARAM_RELATIONS) = Some numRelation"
    by (cases "long_of_double (gp PARAM_RELATIONS)") (simp_all add: cleanupManager_def io_stop_def)
  obtain m1 calls1 where c1: "fold (cleanup_customer env) [0..<nat numRelation] (m, calls) = (m1, calls1)"
    by (cases "fold (cleanup_customer env) [0..<nat numRelation] (m, calls)")
  from assms have f: "fold (cleanup_items env) [0..<nat numRelation] (m1, calls1) = (m', calls')"
    by (simp_all add: cleanupManager_def nr c1 io_return_def)
  from cleanup_customer_calls [OF c1] obtain new1 where
    n1: "calls1 = calls @ new1" "manager_calls env new1 m = Some m1" by blast
  from cleanup_items_calls [OF f] obtain new2 where
    n2: "calls' = calls1 @ new2" "manager_calls env new2 m1 = Some m'" by blast
  from n1 n2 show ?thesis
    by (intro exI [of _ "new1 @ new2"]) (simp add: manager_calls_append)
qed

text \<open>
  C9: For every \<open>numRelation \<ge> 1\<close>, a run of \<open>initializeManager\<close> that returns has made
  \<open>4 * numRelation\<close> add calls on the manager that \<open>manager_alloc\<close> gave, and returns the
  manager that these calls leave: each call went through \<open>manager_addCar_seq\<close>,
  \<open>manager_addFlight_seq\<close>, \<open>manager_addRoom_seq\<close> or \<open>manager_addCustomer_seq\<close> and
  returned the status recorded of it. On each of the four tables exactly \<open>numRelation\<close>
  calls were made, whose ids are the numbers \<open>1, ..., numRelation\<close> in some order without
  repetition (the swaps of the shuffle keep the ids a permutation), each with num in
  \<open>{100, 200, 300, 400, 500}\<close> and price in \<open>{50, 60, 70, 80, 90}\<close>, and each call
  returned true. A run that does not return was aborted by an \<open>assert\<close>, or wrote through
  the \<open>NULL\<close> that the unchecked \<open>malloc\<close> of \<open>ids\<close> returned.
\<close>

theorem initializeManager_populates:
  assumes "long_of_double (gp PARAM_RELATIONS) = Some numRelation" and "1 \<le> numRelation"
  shows "case initializeManager env gp of
           (out, Inr (m, calls)) \<Rightarrow>
             (\<exists>m0. manager_alloc env = Some m0 \<and> manager_calls env calls m0 = Some m) \<and>
             length calls = 4 * nat numRelation \<and>
             (\<forall>t. length (adds_of t calls) = nat numRelation \<and>
                  distinct (map fst (adds_of t calls)) \<and>
                  set (map fst (adds_of t calls)) = {1..numRelation} \<and>
                  list_all (\<lambda>(i, n, p, st). st \<and> n \<in> {100, 200, 300, 400, 500} \<and>
                                           p \<in> {50, 60, 70, 80, 90})
                    (adds_of t calls))
         | (out, Inl st) \<Rightarrow> st = Abort \<or> st = Undefined"
proof -
  obtain out r where i: "initializeManager env gp = (out, r)" by (cases "initializeManager env gp")
  show ?thesis
  proof (cases r)
    case (Inl st)
    with i initializeManager_Inl [of env gp st] show ?thesis by simp
  next
    case (Inr s)
    obtain m calls where s: "s = (m, calls)" by (cases s)
    from initializeManager_Inr [OF i [unfolded Inr s]] assms(1)
      initializeManager_calls [OF i [unfolded Inr s]]
    show ?thesis by (simp add: i Inr s)
  qed
qed

lemma demo_initializeManager:
  assumes "long_of_double (gp PARAM_RELATIONS) = Some numRelation" and "numRelation < 2 ^ 60"
  shows "\<exists>m calls. initializeManager demo_env gp =
           ([(Stdout, ''Initializing manager... ''), (Stdout, ''done.'' @ nl)], Inr (m, calls))"
proof (rule initializeManager_ok [of demo_env gp numRelation])
  show "random_alloc demo_env \<noteq> None" by (simp add: demo_env_def)
  show "manager_alloc demo_env \<noteq> None" by (simp add: demo_env_def)
  show "long_of_double (gp PARAM_RELATIONS) = Some numRelation" by (rule assms)
  show "numRelation \<le> 0 \<or> (numRelation * 8 < 2 ^ 64 \<and> malloc demo_env (size_t_of (numRelation * 8)))"
  proof (cases "numRelation \<le> 0")
    case True
    then show ?thesis by simp
  next
    case False
    then have "0 \<le> numRelation * 8" "numRelation * 8 < 2 ^ 63" using assms(2) by simp_all
    then have "numRelation * 8 < 2 ^ 64 \<and> size_t_of (numRelation * 8) \<le> PTRDIFF_MAX"
      by (simp add: size_t_of_def PTRDIFF_MAX_def nat_le_iff)
    then show ?thesis by (simp add: malloc_def demo_env_def)
  qed
  show "\<forall>t m i n p. fst (manager_add demo_env t m i n p)" by (rule demo_env_adds)
qed

lemma demo_customers_added:
  "manager_calls demo_env cs m = Some m' \<Longrightarrow> deleted_customers cs = [] \<Longrightarrow>
     customers m' = customers m @ map fst (adds_of CUSTOMER cs)"
proof (induction cs arbitrary: m)
  case Nil
  then show ?case by simp
next
  case (Cons c cs)
  show ?case
  proof (cases c)
    case (Add t i n p st)
    with Cons show ?thesis
      by (cases t) (auto simp: demo_env_def split: if_splits)
  next
    case (DeleteCustomer i)
    with Cons.prems show ?thesis by simp
  next
    case (DeleteCar i n)
    with Cons show ?thesis by (auto simp: demo_env_def split: if_splits)
  next
    case (DeleteFlight i)
    with Cons show ?thesis by (auto simp: demo_env_def split: if_splits)
  next
    case (DeleteRoom i n)
    with Cons show ?thesis by (auto simp: demo_env_def split: if_splits)
  qed
qed

lemma demo_customers_deleted:
  "manager_calls demo_env cs m = Some m' \<Longrightarrow> adds_of CUSTOMER cs = [] \<Longrightarrow>
     set (customers m') = set (customers m) - set (deleted_customers cs)"
proof (induction cs arbitrary: m)
  case Nil
  then show ?case by simp
next
  case (Cons c cs)
  show ?case
  proof (cases c)
    case (Add t i n p st)
    with Cons show ?thesis
      by (cases t) (auto simp: demo_env_def split: if_splits)
  next
    case (DeleteCustomer i)
    with Cons show ?thesis by (auto simp: demo_env_def split: if_splits)
  next
    case (DeleteCar i n)
    with Cons show ?thesis by (auto simp: demo_env_def split: if_splits)
  next
    case (DeleteFlight i)
    with Cons show ?thesis by (auto simp: demo_env_def split: if_splits)
  next
    case (DeleteRoom i n)
    with Cons show ?thesis by (auto simp: demo_env_def split: if_splits)
  qed
qed

theorem initializeManager_populates_witness:
  "\<exists>out m calls. initializeManager demo_env ((\<lambda>_. 0)(PARAM_RELATIONS := 2)) = (out, Inr (m, calls)) \<and>
     manager_calls demo_env calls \<lparr>cars = [], flights = [], rooms = [], customers = []\<rparr> = Some m \<and>
     length calls = 8 \<and>
     (\<forall>t. length (adds_of t calls) = 2 \<and> distinct (map fst (adds_of t calls)) \<and>
          set (map fst (adds_of t calls)) = {1..2} \<and>
          list_all (\<lambda>(i, n, p, st). st \<and> n \<in> {100, 200, 300, 400, 500} \<and>
                                   p \<in> {50, 60, 70, 80, 90})
            (adds_of t calls))"
proof -
  define gp :: params where "gp = (\<lambda>_. 0)(PARAM_RELATIONS := 2)"
  have l: "long_of_double (gp PARAM_RELATIONS) = Some 2"
    using long_of_double_of_int [of 2] by (simp add: gp_def LONG_MIN_def LONG_MAX_def)
  from demo_initializeManager [of gp 2, OF l]
  obtain out m calls where i: "initializeManager demo_env gp = (out, Inr (m, calls))" by auto
  have m0: "manager_alloc demo_env = Some \<lparr>cars = [], flights = [], rooms = [], customers = []\<rparr>"
    by (simp add: demo_env_def)
  from initializeManager_populates [of gp 2 demo_env] l i m0 show ?thesis
    unfolding gp_def by simp
qed

lemma gp_relations:
  "fst (fst (parse_opts False [''-r3''])) PARAM_RELATIONS = 3"
  by (simp add: parse_opts_def opt_lookup_def is_option_def parse_opt_def PARAM_RELATIONS_def
      atol_def isspace_def isdigit_def digits_value_def LONG_MIN_def LONG_MAX_def
      double_of_long_exact)

lemma setup_and_cleanup_calls:
  assumes "initializeManager env gp = (o1, Inr (m, calls))"
    and "cleanupManager env gp (m1, calls) = (o2, Inr (m2, calls2))"
  shows "\<exists>numRelation m0 dels. long_of_double (gp PARAM_RELATIONS) = Some numRelation \<and>
     manager_alloc env = Some m0 \<and> manager_calls env calls m0 = Some m \<and>
     deleted_customers calls = [] \<and>
     set (map fst (adds_of CUSTOMER calls)) = {1..numRelation} \<and>
     list_all (\<lambda>(i, n, p, st). st) (adds_of CUSTOMER calls) \<and>
     calls2 = calls @ dels \<and> manager_calls env dels m1 = Some m2 \<and>
     adds_of CUSTOMER dels = [] \<and>
     deleted_customers dels = map (\<lambda>i. int i + 1) [0..<nat numRelation] \<and>
     set (deleted_customers dels) = {1..numRelation}"
proof -
  from initializeManager_Inr [OF assms(1)] obtain numRelation where
    nr: "long_of_double (gp PARAM_RELATIONS) = Some numRelation" and
    d: "deleted_customers calls = []" and
    a: "set (map fst (adds_of CUSTOMER calls)) = {1..numRelation}" and
    l: "list_all (\<lambda>(i, n, p, st). st \<and> n \<in> {100, 200, 300, 400, 500} \<and> p \<in> {50, 60, 70, 80, 90})
          (adds_of CUSTOMER calls)"
    by blast
  from initializeManager_calls [OF assms(1)] obtain m0 where
    m0: "manager_alloc env = Some m0" "manager_calls env calls m0 = Some m" by blast
  from cleanupManager_calls [OF assms(2)] obtain dels where
    dels: "calls2 = calls @ dels" "manager_calls env dels m1 = Some m2" by blast
  from cleanupManager_Inr [OF assms(2)] nr d
  have c: "deleted_customers calls2 = map (\<lambda>i. int i + 1) [0..<nat numRelation]"
    and ad: "adds_of CUSTOMER calls2 = adds_of CUSTOMER calls" by simp_all
  from c d dels(1) have c': "deleted_customers dels = map (\<lambda>i. int i + 1) [0..<nat numRelation]"
    by (simp add: deleted_customers_append)
  from ad dels(1) have ad': "adds_of CUSTOMER dels = []" by (simp add: adds_of_append)
  have s: "set (deleted_customers dels) = {1..numRelation}"
    unfolding c' by (rule initial_ids(2))
  have "list_all (\<lambda>(i, n, p, st). st) (adds_of CUSTOMER calls)"
    using l by (auto simp: list_all_iff)
  with nr c' s a m0 dels d ad' show ?thesis by blast
qed

text \<open>
  C2, as amended: the ids that \<open>cleanupManager\<close> passes to \<open>manager_deleteCustomer_seq\<close>
  are \<open>1, ..., numRelation\<close> in ascending order, and they are exactly the ids that
  \<open>initializeManager\<close> passed to \<open>manager_addCustomer_seq\<close>, each insertion having
  returned true: the setup inserts the customers in a shuffled order, but under the ids
  \<open>1, ..., numRelation\<close>. The manager that the setup returns is the allocated one after
  its calls, and the manager that the cleanup leaves is the one it was given after its
  calls.
\<close>

theorem cleanup_deletes_inserted_customers:
  assumes "initializeManager env gp = (o1, Inr (m, calls))"
    and "cleanupManager env gp (m1, calls) = (o2, Inr (m2, calls2))"
  shows "\<exists>numRelation m0 dels. long_of_double (gp PARAM_RELATIONS) = Some numRelation \<and>
     manager_alloc env = Some m0 \<and> manager_calls env calls m0 = Some m \<and>
     set (map fst (adds_of CUSTOMER calls)) = {1..numRelation} \<and>
     list_all (\<lambda>(i, n, p, st). st) (adds_of CUSTOMER calls) \<and>
     calls2 = calls @ dels \<and> manager_calls env dels m1 = Some m2 \<and>
     deleted_customers dels = map (\<lambda>i. int i + 1) [0..<nat numRelation] \<and>
     set (deleted_customers dels) = {1..numRelation}"
  using setup_and_cleanup_calls [OF assms] by blast

lemma demo_setup_and_cleanup:
  "\<exists>m calls m2 dels.
     initializeManager demo_env (fst (fst (parse_opts False [''-r3'']))) =
       ([(Stdout, ''Initializing manager... ''), (Stdout, ''done.'' @ nl)], Inr (m, calls)) \<and>
     cleanupManager demo_env (fst (fst (parse_opts False [''-r3'']))) (m, calls) =
       ([], Inr (m2, calls @ dels)) \<and>
     set (customers m) = {1, 2, 3} \<and> set (map fst (adds_of CUSTOMER calls)) = {1, 2, 3} \<and>
     deleted_customers calls = [] \<and> deleted_customers dels = [1, 2, 3] \<and> customers m2 = []"
proof -
  define gp where "gp = fst (fst (parse_opts False [''-r3'']))"
  have l: "long_of_double (gp PARAM_RELATIONS) = Some 3"
    using long_of_double_of_int [of 3] by (simp add: gp_def gp_relations LONG_MIN_def LONG_MAX_def)
  from demo_initializeManager [of gp 3, OF l] obtain m calls where
    i: "initializeManager demo_env gp =
          ([(Stdout, ''Initializing manager... ''), (Stdout, ''done.'' @ nl)], Inr (m, calls))"
    by auto
  from cleanupManager_ok [where gp = gp and numRelation = 3 and env = demo_env and s = "(m, calls)", OF l]
  obtain m2 calls2 where
    c: "cleanupManager demo_env gp (m, calls) = ([], Inr (m2, calls2))" by blast
  from setup_and_cleanup_calls [OF i c] obtain nr m0 dels where
    f: "long_of_double (gp PARAM_RELATIONS) = Some nr"
    "manager_alloc demo_env = Some m0" "manager_calls demo_env calls m0 = Some m"
    "deleted_customers calls = []"
    "set (map fst (adds_of CUSTOMER calls)) = {1..nr}"
    "calls2 = calls @ dels" "manager_calls demo_env dels m = Some m2"
    "adds_of CUSTOMER dels = []"
    "deleted_customers dels = map (\<lambda>i. int i + 1) [0..<nat nr]"
    by blast
  from f(1) l have nr: "nr = 3" by simp
  have e: "{1..3::int} = {1, 2, 3}" by auto
  have u: "map (\<lambda>i. int i + 1) [0..<nat 3] = [1, 2, 3]" by (simp add: upt_rec)
  from f(2) have m0: "customers m0 = []" by (auto simp: demo_env_def)
  from demo_customers_added [OF f(3) f(4)] m0 have cm: "customers m = map fst (adds_of CUSTOMER calls)"
    by simp
  then have 1: "set (customers m) = {1, 2, 3}" using f(5) nr e by simp
  from demo_customers_deleted [OF f(7) f(8)] 1 f(9) nr u have "set (customers m2) = {}" by simp
  then have 2: "customers m2 = []" by simp
  from i c f(4,5,6,9) nr e u 1 2 show ?thesis unfolding gp_def [symmetric] by auto
qed

text \<open>
  The claim C2 as first stated fails: with three relations the ids that the setup passes
  to \<open>manager_addCustomer_seq\<close> are 1, 2 and 3 and the manager it returns holds the
  customers 1, 2 and 3, the very ids that the cleanup passes to
  \<open>manager_deleteCustomer_seq\<close>, after which the manager holds no customer.
\<close>

theorem customers_inserted_counterexample:
  "set (customers (fst (projr (snd (initializeManager demo_env (fst (fst (parse_opts False [''-r3'']))))))))
   = {1, 2, 3} \<and>
   set (map fst (adds_of CUSTOMER
      (snd (projr (snd (initializeManager demo_env (fst (fst (parse_opts False [''-r3''])))))))))
   = {1, 2, 3} \<and>
   set (deleted_customers
      (snd (projr (snd (cleanupManager demo_env (fst (fst (parse_opts False [''-r3''])))
         (projr (snd (initializeManager demo_env (fst (fst (parse_opts False [''-r3''])))))))))))
   = {1, 2, 3} \<and>
   customers
      (fst (projr (snd (cleanupManager demo_env (fst (fst (parse_opts False [''-r3''])))
         (projr (snd (initializeManager demo_env (fst (fst (parse_opts False [''-r3''])))))))))) = []"
proof -
  from demo_setup_and_cleanup obtain m calls m2 dels where
    f: "initializeManager demo_env (fst (fst (parse_opts False [''-r3'']))) =
       ([(Stdout, ''Initializing manager... ''), (Stdout, ''done.'' @ nl)], Inr (m, calls))"
     "cleanupManager demo_env (fst (fst (parse_opts False [''-r3'']))) (m, calls) =
       ([], Inr (m2, calls @ dels))"
     "set (customers m) = {1, 2, 3}" "set (map fst (adds_of CUSTOMER calls)) = {1, 2, 3}"
     "deleted_customers calls = []" "deleted_customers dels = [1, 2, 3]" "customers m2 = []"
    by blast
  show ?thesis
    unfolding f(1) snd_conv sum.sel f(2) fst_conv
    using f(3-7) by (simp add: deleted_customers_append)
qed

theorem cleanup_deletes_inserted_customers_witness:
  "\<exists>m calls m2 dels.
     snd (initializeManager demo_env (fst (fst (parse_opts False [''-r3''])))) = Inr (m, calls) \<and>
     snd (cleanupManager demo_env (fst (fst (parse_opts False [''-r3'']))) (m, calls)) =
       Inr (m2, calls @ dels) \<and>
     manager_calls demo_env calls \<lparr>cars = [], flights = [], rooms = [], customers = []\<rparr> = Some m \<and>
     set (map fst (adds_of CUSTOMER calls)) = {1..3} \<and>
     manager_calls demo_env dels m = Some m2 \<and>
     deleted_customers dels = [1, 2, 3]"
proof -
  define gp where "gp = fst (fst (parse_opts False [''-r3'']))"
  have l: "long_of_double (gp PARAM_RELATIONS) = Some 3"
    using long_of_double_of_int [of 3] by (simp add: gp_def gp_relations LONG_MIN_def LONG_MAX_def)
  from demo_initializeManager [of gp 3, OF l] obtain m calls where
    i: "initializeManager demo_env gp =
          ([(Stdout, ''Initializing manager... ''), (Stdout, ''done.'' @ nl)], Inr (m, calls))"
    by auto
  from cleanupManager_ok [where gp = gp and numRelation = 3 and env = demo_env and s = "(m, calls)", OF l]
  obtain m2 calls2 where
    c: "cleanupManager demo_env gp (m, calls) = ([], Inr (m2, calls2))" by blast
  from cleanup_deletes_inserted_customers [OF i c] obtain nr m0 dels where
    f: "long_of_double (gp PARAM_RELATIONS) = Some nr"
    "manager_alloc demo_env = Some m0" "manager_calls demo_env calls m0 = Some m"
    "set (map fst (adds_of CUSTOMER calls)) = {1..nr}"
    "calls2 = calls @ dels" "manager_calls demo_env dels m = Some m2"
    "deleted_customers dels = map (\<lambda>i. int i + 1) [0..<nat nr]"
    by blast
  from f(1) l have nr: "nr = 3" by simp
  have u: "map (\<lambda>i. int i + 1) [0..<nat 3] = [1, 2, 3]" by (simp add: upt_rec)
  from f(2) have m0: "m0 = \<lparr>cars = [], flights = [], rooms = [], customers = []\<rparr>"
    by (simp add: demo_env_def)
  from i c f(3-7) nr u m0 show ?thesis unfolding gp_def [symmetric] by auto
qed

subsection \<open>The two roundings of initializeClients\<close>

lemma fl_bounds:
  assumes "0 \<le> x"
  shows "0 \<le> fl x" and "\<bar>fl x - x\<bar> \<le> x / 2 ^ 53"
proof -
  show e: "\<bar>fl x - x\<bar> \<le> x / 2 ^ 53" using fl_error [of x] assms by simp
  have "x / 2 ^ 53 \<le> x" using assms by (simp add: field_simps)
  with e show "0 \<le> fl x" by linarith
qed

lemma fl_eq_0_iff: "fl x = 0 \<longleftrightarrow> x = 0"
proof
  assume z: "fl x = 0"
  show "x = 0"
  proof (rule ccontr)
    assume "x \<noteq> 0"
    then have "\<bar>x\<bar> / 2 ^ 53 < \<bar>x\<bar>" by (simp add: field_simps)
    with fl_error [of x] z show False by simp
  qed
next
  assume "x = 0"
  then show "fl x = 0" by (simp add: fl_def)
qed

lemma nearest_floor:
  fixes z :: rat and a b :: int
  assumes "0 < b" and "\<bar>z - (of_int a / of_int b + 1 / 2)\<bar> < 1 / (2 * of_int b)"
  shows "\<bar>2 * b * \<lfloor>z\<rfloor> - 2 * a\<bar> \<le> b"
proof -
  define k where "k = \<lfloor>z\<rfloor>"
  have bp: "(0::rat) < of_int b" using assms(1) by simp
  have k: "of_int k \<le> z" "z < of_int k + 1" unfolding k_def by linarith+
  have up: "z < of_int a / of_int b + 1 / 2 + 1 / (2 * of_int b)" using assms(2) by linarith
  have lo: "of_int a / of_int b + 1 / 2 - 1 / (2 * of_int b) < z" using assms(2) by linarith
  have "(of_int k :: rat) < of_int a / of_int b + 1 / 2 + 1 / (2 * of_int b)" using k(1) up by linarith
  then have "2 * of_int b * (of_int k :: rat) < 2 * of_int b * (of_int a / of_int b + 1 / 2 + 1 / (2 * of_int b))"
    using bp by (intro mult_strict_left_mono) simp_all
  also have "\<dots> = (of_int (2 * a + b + 1) :: rat)" using bp by (simp add: field_simps)
  finally have "(of_int (2 * b * k) :: rat) < of_int (2 * a + b + 1)" by simp
  then have 1: "2 * b * k < 2 * a + b + 1" by (simp only: of_int_less_iff)
  have "of_int a / of_int b + 1 / 2 - 1 / (2 * of_int b) < (of_int k :: rat) + 1" using k(2) lo by linarith
  then have "2 * of_int b * (of_int a / of_int b + 1 / 2 - 1 / (2 * of_int b)) < 2 * of_int b * ((of_int k :: rat) + 1)"
    using bp by (intro mult_strict_left_mono) simp_all
  moreover have "2 * (of_int b :: rat) * (of_int a / of_int b + 1 / 2 - 1 / (2 * of_int b)) = (of_int (2 * a + b - 1) :: rat)"
    using bp by (simp add: field_simps)
  ultimately have "(of_int (2 * a + b - 1) :: rat) < of_int (2 * b * (k + 1))" by simp
  then have 2: "2 * a + b - 1 < 2 * b * (k + 1)" by (simp only: of_int_less_iff)
  then have "2 * a + b - 1 < 2 * b * k + 2 * b" by (simp add: algebra_simps)
  with 1 show ?thesis unfolding k_def [symmetric] by linarith
qed


lemma floor_half: "\<lfloor>1 / 2 :: rat\<rfloor> = 0"
  by (rule floor_unique) simp_all


lemma fl_step:
  fixes e :: rat
  assumes "e = 1 / 2 ^ 53" and "0 \<le> x"
  shows "0 \<le> fl x" and "\<bar>fl x - x\<bar> \<le> x * e" and "fl x \<le> x + x * e"
proof -
  show n: "0 \<le> fl x" using assms(2) by (rule fl_bounds(1))
  show b: "\<bar>fl x - x\<bar> \<le> x * e" using fl_bounds(2) [OF assms(2)] by (simp add: assms(1))
  then show "fl x \<le> x + x * e" by linarith
qed

lemma long_of_double_floor:
  "0 \<le> d \<Longrightarrow> \<lfloor>d\<rfloor> \<le> LONG_MAX \<Longrightarrow> long_of_double d = Some \<lfloor>d\<rfloor>"
  by (auto simp: long_of_double_def LONG_MIN_def Let_def intro: order_trans [of _ 0])

lemma client_quota_nearest:
  assumes "0 \<le> t" and "1 \<le> c" and "4 * t + c < 2 ^ 53"
  shows "\<exists>k. client_quota t c = Some k \<and> \<bar>2 * c * k - 2 * t\<bar> \<le> c \<and> 0 \<le> k"
proof -
  define e :: rat where "e = 1 / 2 ^ 53"
  define X :: rat where "X = of_int t / of_int c"
  define d1 where "d1 = fl X"
  define d3 where "d3 = fl (d1 + 1 / 2)"
  define A where "A = X * e"
  have cp: "(0::rat) < of_int c" using assms(2) by simp
  have X0: "0 \<le> X" unfolding X_def using assms(1) cp by simp
  have ex: "\<bar>t\<bar> \<le> 2 ^ 53" "\<bar>c\<bar> \<le> 2 ^ 53" using assms by simp_all
  have cq: "client_quota t c = long_of_double d3"
    using ex assms(2)
    by (simp add: client_quota_def double_of_long_exact ddiv_def dadd_def d3_def d1_def X_def)
  note s1 = fl_step [OF e_def X0, folded d1_def A_def]
  have y0: "0 \<le> d1 + 1 / 2" using s1(1) by simp
  note s3 = fl_step [OF e_def y0, folded d3_def]
  have e0: "0 \<le> e" by (simp add: e_def)
  have "(d1 + 1 / 2) * e \<le> (X + A + 1 / 2) * e"
    using s1(3) e0 by (intro mult_right_mono) simp_all
  then have "\<bar>d3 - (d1 + 1 / 2)\<bar> \<le> A + A * e + e / 2"
    using s3(2) by (simp add: algebra_simps A_def)
  with s1(2) have err: "\<bar>d3 - (X + 1 / 2)\<bar> \<le> 2 * A + A * e + e / 2" by linarith
  have small: "2 * A + A * e + e / 2 < 1 / (2 * of_int c)"
  proof -
    define T :: rat where "T = of_int t"
    define C :: rat where "C = of_int c"
    have Cp: "0 < C" unfolding C_def by (rule cp)
    have T0: "0 \<le> T" unfolding T_def using assms(1) by simp
    have "(of_int (4 * t + c + 1) :: rat) \<le> of_int (2 ^ 53)"
      using assms(3) by (simp only: of_int_le_iff)
    then have le: "4 * T + C + 1 \<le> 2 ^ 53" by (simp add: T_def C_def)
    have Te: "2 * (T * e) < 1" using le T0 Cp by (simp add: e_def)
    have A: "A = T * e / C" by (simp add: A_def X_def T_def C_def)
    have "2 * C * (2 * A + A * e + e / 2) = (4 * T + C) * e + 2 * (T * e) * e"
      unfolding A using Cp by (simp add: field_simps)
    also have "\<dots> < (4 * T + C) * e + 1 * e"
      using Te by (intro add_strict_left_mono mult_strict_right_mono) (simp_all add: e_def)
    also have "\<dots> = (4 * T + C + 1) * e" by (simp add: algebra_simps)
    also have "\<dots> \<le> 2 ^ 53 * e" using le e0 by (rule mult_right_mono)
    also have "\<dots> = 1" by (simp add: e_def)
    finally have "2 * C * (2 * A + A * e + e / 2) < 1" .
    then have "2 * A + A * e + e / 2 < 1 / (2 * C)" using Cp by (simp add: field_simps)
    then show ?thesis by (simp add: C_def)
  qed
  from err small have near: "\<bar>d3 - (of_int t / of_int c + 1 / 2)\<bar> < 1 / (2 * of_int c)"
    unfolding X_def by linarith
  have c0: "0 < c" using assms(2) by simp
  from nearest_floor [OF c0 near] have k: "\<bar>2 * c * \<lfloor>d3\<rfloor> - 2 * t\<bar> \<le> c" .
  have k0: "0 \<le> \<lfloor>d3\<rfloor>" using s3(1) by simp
  have "2 * c * \<lfloor>d3\<rfloor> \<le> 2 * t + c" using k by linarith
  moreover have "2 * \<lfloor>d3\<rfloor> \<le> 2 * c * \<lfloor>d3\<rfloor>"
    using mult_right_mono [OF assms(2) k0] by simp
  moreover have "(2::int) ^ 53 \<le> 2 ^ 63 - 1" by simp
  ultimately have "\<lfloor>d3\<rfloor> \<le> LONG_MAX" unfolding LONG_MAX_def using assms k0 by linarith
  with long_of_double_floor [OF s3(1)] cq k k0 show ?thesis by simp
qed

lemma query_range_zero: "q = 0 \<or> r = 0 \<Longrightarrow> query_range q r = Some 0"
proof -
  assume "q = 0 \<or> r = 0"
  moreover have "double_of_long 0 = 0" by (simp add: double_of_long_def fl_def)
  moreover have "fl 0 = 0" by (simp add: fl_def)
  moreover have "long_of_double (1 / 2) = Some 0"
    by (simp add: long_of_double_def LONG_MIN_def LONG_MAX_def floor_half)
  ultimately show ?thesis
    by (auto simp: query_range_def ddiv_def dadd_def dmul_def fl_half)
qed

lemma query_range_nearest:
  assumes "0 \<le> q" and "0 \<le> r" and "6 * (q * r) + 101 < 2 ^ 53"
  shows "\<exists>k. query_range q r = Some k \<and> \<bar>100 * k - q * r\<bar> \<le> 50 \<and> 0 \<le> k"
proof (cases "q = 0 \<or> r = 0")
  case True
  then have "\<bar>100 * 0 - q * r\<bar> \<le> 50" by auto
  with query_range_zero [OF True] show ?thesis by blast
next
  case False
  with assms have q1: "1 \<le> q" and r1: "1 \<le> r" by simp_all
  have "q * 1 \<le> q * r" using r1 assms(1) by (intro mult_left_mono) simp_all
  moreover have "1 * r \<le> q * r" using q1 assms(2) by (intro mult_right_mono) simp_all
  ultimately have ex: "\<bar>q\<bar> \<le> 2 ^ 53" "\<bar>r\<bar> \<le> 2 ^ 53" using assms by simp_all
  define e :: rat where "e = 1 / 2 ^ 53"
  define X1 :: rat where "X1 = of_int q / 100"
  define R :: rat where "R = of_int r"
  define X :: rat where "X = X1 * R"
  define d1 where "d1 = fl X1"
  define d2 where "d2 = fl (d1 * R)"
  define d3 where "d3 = fl (d2 + 1 / 2)"
  define A where "A = X * e"
  have X10: "0 \<le> X1" unfolding X1_def using assms(1) by simp
  have R0: "0 \<le> R" unfolding R_def using assms(2) by simp
  have X0: "0 \<le> X" unfolding X_def using X10 R0 by simp
  have e0: "0 \<le> e" "e \<le> 1" by (simp_all add: e_def)
  have A0: "0 \<le> A" unfolding A_def using X0 e0 by simp
  have qr: "query_range q r = long_of_double d3"
    using ex
    by (simp add: query_range_def double_of_long_exact ddiv_def dadd_def dmul_def d3_def d2_def
        d1_def X1_def R_def)
  note s1 = fl_step [OF e_def X10, folded d1_def]
  have P0: "0 \<le> d1 * R" using s1(1) R0 by simp
  note s2 = fl_step [OF e_def P0, folded d2_def]
  have y0: "0 \<le> d2 + 1 / 2" using s2(1) by simp
  note s3 = fl_step [OF e_def y0, folded d3_def]
  have a1: "\<bar>d1 * R - X\<bar> \<le> A"
  proof -
    have "\<bar>d1 * R - X\<bar> = \<bar>d1 - X1\<bar> * R" using R0 by (simp add: X_def abs_mult flip: left_diff_distrib)
    also have "\<dots> \<le> (X1 * e) * R" using s1(2) R0 by (rule mult_right_mono)
    also have "\<dots> = A" by (simp add: X_def A_def)
    finally show ?thesis .
  qed
  have P2: "d1 * R \<le> X + A" using a1 by linarith
  have "(d1 * R) * e \<le> (X + A) * e" using P2 e0(1) by (rule mult_right_mono)
  with s2(2) have "\<bar>d2 - d1 * R\<bar> \<le> A + A * e" by (simp add: algebra_simps A_def)
  with a1 have a2: "\<bar>d2 - X\<bar> \<le> 2 * A + A * e" by linarith
  have Ae: "A * e \<le> A" using mult_left_mono [OF e0(2) A0] by simp
  have d24: "d2 + 1 / 2 \<le> X + 3 * A + 1 / 2" using a2 Ae by linarith
  have "(d2 + 1 / 2) * e \<le> (X + 3 * A + 1 / 2) * e" using d24 e0(1) by (rule mult_right_mono)
  with s3(2) have "\<bar>d3 - (d2 + 1 / 2)\<bar> \<le> A + 3 * (A * e) + e / 2" by (simp add: algebra_simps A_def)
  with a2 have err: "\<bar>d3 - (X + 1 / 2)\<bar> \<le> 3 * A + 4 * (A * e) + e / 2" by linarith
  have Xqr: "X = of_int (q * r) / of_int 100" by (simp add: X_def X1_def R_def)
  have small: "3 * A + 4 * (A * e) + e / 2 < 1 / (2 * of_int 100)"
  proof -
    define Q :: rat where "Q = of_int (q * r)"
    have Q0: "0 \<le> Q" unfolding Q_def using assms(1,2) by simp
    have "(of_int (6 * (q * r) + 102) :: rat) \<le> of_int (2 ^ 53)"
      using assms(3) by (simp only: of_int_le_iff)
    then have le: "6 * Q + 102 \<le> 2 ^ 53" by (simp add: Q_def)
    have A: "A = Q * e / 100" by (simp add: A_def Xqr Q_def)
    have Qe: "8 * (Q * e) < 2" using le Q0 by (simp add: e_def)
    have "200 * (3 * A + 4 * (A * e) + e / 2) = (6 * Q + 100) * e + 8 * (Q * e) * e"
      unfolding A by (simp add: field_simps)
    also have "\<dots> < (6 * Q + 100) * e + 2 * e"
      using Qe by (intro add_strict_left_mono mult_strict_right_mono) (simp_all add: e_def)
    also have "\<dots> = (6 * Q + 102) * e" by (simp add: algebra_simps)
    also have "\<dots> \<le> 2 ^ 53 * e" using le e0(1) by (rule mult_right_mono)
    also have "\<dots> = 1" by (simp add: e_def)
    finally have "200 * (3 * A + 4 * (A * e) + e / 2) < 1" .
    then show ?thesis by simp
  qed
  from err small have near: "\<bar>d3 - (of_int (q * r) / of_int 100 + 1 / 2)\<bar> < 1 / (2 * of_int 100)"
    unfolding Xqr by linarith
  from nearest_floor [OF _ near] have "\<bar>2 * 100 * \<lfloor>d3\<rfloor> - 2 * (q * r)\<bar> \<le> 100" by simp
  then have k: "\<bar>100 * \<lfloor>d3\<rfloor> - q * r\<bar> \<le> 50" by linarith
  have k0: "0 \<le> \<lfloor>d3\<rfloor>" using s3(1) by simp
  have "(2::int) ^ 53 \<le> 2 ^ 63 - 1" by simp
  moreover have "0 \<le> q * r" using assms(1,2) by simp
  ultimately have "\<lfloor>d3\<rfloor> \<le> LONG_MAX" unfolding LONG_MAX_def using k k0 assms(3) by linarith
  with long_of_double_floor [OF s3(1)] qr k k0 show ?thesis by simp
qed

subsection \<open>initializeClients\<close>

lemma snd_io_bind: "snd (io_bind m f) = (case snd m of Inl s \<Rightarrow> Inl s | Inr x \<Rightarrow> snd (f x))"
  by (cases m) (auto simp: io_bind_def split: sum.splits prod.splits)

lemma fst_io_bind: "fst (io_bind m f) = (case snd m of Inl s \<Rightarrow> fst m | Inr x \<Rightarrow> fst m @ fst (f x))"
  by (cases m) (auto simp: io_bind_def split: sum.splits prod.splits)

lemma snd_io_then: "snd (io_then m k) = (case snd m of Inl s \<Rightarrow> Inl s | Inr x \<Rightarrow> snd k)"
  by (simp add: io_then_def snd_io_bind)

lemma fst_io_then: "fst (io_then m k) = (case snd m of Inl s \<Rightarrow> fst m | Inr x \<Rightarrow> fst m @ fst k)"
  by (simp add: io_then_def fst_io_bind)

lemma clients_summary_eq:
  "clients_summary a b c d e f g h =
     ([(Stdout, ''    Transactions        = '' @ show_long a @ nl),
       (Stdout, ''    Clients             = '' @ show_long b @ nl),
       (Stdout, ''    Transactions/client = '' @ show_long c @ nl),
       (Stdout, ''    Queries/transaction = '' @ show_long d @ nl),
       (Stdout, ''    Relations           = '' @ show_long e @ nl),
       (Stdout, ''    Query percent       = '' @ show_long f @ nl),
       (Stdout, ''    Query range         = '' @ show_long g @ nl),
       (Stdout, ''    Percent user        = '' @ show_long h @ nl)], Inr ())"
  by (simp add: clients_summary_def io_then_def io_bind_def printf_def)

lemma initializeClients_Inr:
  assumes "initializeClients env gp = (out, Inr clients)"
  shows "\<exists>numClient numTransaction nq numRelation percentQuery percentUser quota qrange.
     long_of_double (gp PARAM_CLIENTS) = Some numClient \<and>
     long_of_double (gp PARAM_TRANSACTIONS) = Some numTransaction \<and>
     long_of_double (gp PARAM_NUMBER) = Some nq \<and>
     long_of_double (gp PARAM_RELATIONS) = Some numRelation \<and>
     long_of_double (gp PARAM_QUERIES) = Some percentQuery \<and>
     long_of_double (gp PARAM_USER) = Some percentUser \<and>
     client_quota numTransaction numClient = Some quota \<and>
     query_range percentQuery numRelation = Some qrange \<and>
     clients = map (\<lambda>i. \<lparr>c_id = int i, c_numTransactionPerClient = quota,
                           c_numQueryPerTransaction = nq, c_queryRange = qrange,
                           c_percentUser = percentUser\<rparr>) [0..<nat numClient] \<and>
     out = [(Stdout, ''Initializing clients... ''), (Stdout, ''done.'' @ nl)] @
           fst (clients_summary numTransaction numClient quota nq numRelation percentQuery
                  qrange percentUser)"
  using assms
  by (auto simp: initializeClients_def io_then_def io_bind_def io_stop_def io_return_def
      printf_def puts_def c_assert_def clients_summary_eq Let_def
      split: option.splits if_splits)

lemma initializeClients_Inl:
  assumes "snd (initializeClients env gp) = Inl st"
  shows "st = Abort \<or> st = Undefined"
  using assms
  by (auto simp: initializeClients_def io_then_def io_bind_def io_stop_def io_return_def
      printf_def puts_def c_assert_def clients_summary_eq Let_def
      split: option.splits if_splits)

lemma initializeClients_ok:
  assumes "long_of_double (gp PARAM_CLIENTS) = Some numClient"
    and "long_of_double (gp PARAM_TRANSACTIONS) = Some numTransaction"
    and "long_of_double (gp PARAM_NUMBER) = Some nq"
    and "long_of_double (gp PARAM_RELATIONS) = Some numRelation"
    and "long_of_double (gp PARAM_QUERIES) = Some percentQuery"
    and "long_of_double (gp PARAM_USER) = Some percentUser"
    and "client_quota numTransaction numClient = Some quota"
    and "query_range percentQuery numRelation = Some qrange"
    and "random_alloc env \<noteq> None"
    and "0 \<le> numClient" and "numClient < 2 ^ 60"
    and "malloc env (size_t_of (numClient * 8))"
    and "\<forall>c. client_alloc env c"
  shows "initializeClients env gp =
     ([(Stdout, ''Initializing clients... ''), (Stdout, ''done.'' @ nl)] @
           fst (clients_summary numTransaction numClient quota nq numRelation percentQuery
                  qrange percentUser),
      Inr (map (\<lambda>i. \<lparr>c_id = int i, c_numTransactionPerClient = quota,
                           c_numQueryPerTransaction = nq, c_queryRange = qrange,
                           c_percentUser = percentUser\<rparr>) [0..<nat numClient]))"
proof -
  have "numClient * 8 mod 2 ^ 64 = numClient * 8" using assms(10,11) by simp
  then have room: "size_t_of (numClient * 8) div 8 = nat numClient"
    using assms(10) by (simp add: size_t_of_def nat_mult_distrib)
  show ?thesis
    using assms(1-9,12,13)
    by (auto simp: initializeClients_def io_then_def io_bind_def io_stop_def io_return_def
        printf_def puts_def c_assert_def clients_summary_eq Let_def room list_all_iff)
qed

subsection \<open>main\<close>

lemma main_cases:
  "main env appName args =
    (case parseArgs (posixly_correct env) appName args of
       (op, Inl st) \<Rightarrow> (op, st)
     | (op, Inr gp) \<Rightarrow>
        (case initializeManager env gp of
           (om, Inl st) \<Rightarrow> (op @ om, st)
         | (om, Inr s) \<Rightarrow>
            (case initializeClients env gp of
               (oc, Inl st) \<Rightarrow> (op @ om @ oc, st)
             | (oc, Inr clients) \<Rightarrow>
                (case thread_start env clients (fst s) of
                   None \<Rightarrow> (op @ om @ oc @ [(Stdout, ''Running clients... '')], Hang)
                 | Some m' \<Rightarrow>
                    (case cleanupManager env gp (m', snd s) of
                       (ocl, Inl st) \<Rightarrow>
                         (op @ om @ oc @
                          [(Stdout, ''Running clients... ''), (Stdout, ''done.'' @ nl),
                           (Stdout, ''Time = '' @ show_f6 (timer_diff_seconds env) @ nl),
                           (Stdout, ''Deallocating memory... '')] @ ocl, st)
                     | (ocl, Inr s') \<Rightarrow>
                         (op @ om @ oc @
                          [(Stdout, ''Running clients... ''), (Stdout, ''done.'' @ nl),
                           (Stdout, ''Time = '' @ show_f6 (timer_diff_seconds env) @ nl),
                           (Stdout, ''Deallocating memory... '')] @ ocl @
                          [(Stdout, ''done.'' @ nl)], Exit 0))))))"
  by (simp add: main_def main_body_def io_bind_def io_then_def printf_def puts_def io_return_def
      io_stop_def split: prod.splits sum.splits option.splits)

lemma cleanupManager_Inl: "snd (cleanupManager env gp s) = Inl st \<Longrightarrow> st = Undefined"
  by (auto simp: cleanupManager_def io_stop_def io_return_def split: option.splits)

lemma main_status:
  "snd (main env appName args) = Exit 1 \<and> isl (snd (parseArgs (posixly_correct env) appName args)) \<or>
   \<not> isl (snd (parseArgs (posixly_correct env) appName args)) \<and>
   (snd (main env appName args) = Exit 0 \<or> snd (main env appName args) = Abort \<or>
    snd (main env appName args) = Undefined \<or> snd (main env appName args) = Hang)"
proof -
  obtain op rp where p: "parseArgs (posixly_correct env) appName args = (op, rp)"
    by (cases "parseArgs (posixly_correct env) appName args")
  show ?thesis
  proof (cases rp)
    case (Inl st)
    with p parseArgs_Inl [of "posixly_correct env" appName args st] show ?thesis
      by (simp add: main_cases)
  next
    case gp: (Inr gp)
    obtain om rm where im: "initializeManager env gp = (om, rm)" by (cases "initializeManager env gp")
    show ?thesis
    proof (cases rm)
      case (Inl st)
      with im initializeManager_Inl [of env gp st] p gp show ?thesis by (auto simp: main_cases)
    next
      case s: (Inr s)
      obtain oc rc where ic: "initializeClients env gp = (oc, rc)" by (cases "initializeClients env gp")
      show ?thesis
      proof (cases rc)
        case (Inl st)
        with ic initializeClients_Inl [of env gp st] p gp im s show ?thesis by (auto simp: main_cases)
      next
        case cl: (Inr clients)
        show ?thesis
        proof (cases "thread_start env clients (fst s)")
          case None
          with p gp im s ic cl show ?thesis by (simp add: main_cases)
        next
          case (Some m')
          obtain ocl rcl where c: "cleanupManager env gp (m', snd s) = (ocl, rcl)"
            by (cases "cleanupManager env gp (m', snd s)")
          show ?thesis
          proof (cases rcl)
            case (Inl st)
            with c cleanupManager_Inl [of env gp "(m', snd s)" st] p gp im s ic cl Some show ?thesis
              by (simp add: main_cases)
          next
            case (Inr s')
            with c p gp im s ic cl Some show ?thesis by (simp add: main_cases)
          qed
        qed
      qed
    qed
  qed
qed

lemma main_Exit0:
  assumes "snd (main env appName args) = Exit 0"
  shows "\<exists>gp om m calls oc clients m' s'.
     parseArgs (posixly_correct env) appName args = ([], Inr gp) \<and>
     initializeManager env gp = (om, Inr (m, calls)) \<and>
     initializeClients env gp = (oc, Inr clients) \<and>
     thread_start env clients m = Some m' \<and>
     cleanupManager env gp (m', calls) = ([], Inr s') \<and>
     fst (main env appName args) = om @ oc @
        [(Stdout, ''Running clients... ''), (Stdout, ''done.'' @ nl),
         (Stdout, ''Time = '' @ show_f6 (timer_diff_seconds env) @ nl),
         (Stdout, ''Deallocating memory... ''), (Stdout, ''done.'' @ nl)]"
proof -
  obtain op rp where p: "parseArgs (posixly_correct env) appName args = (op, rp)"
    by (cases "parseArgs (posixly_correct env) appName args")
  show ?thesis
  proof (cases rp)
    case (Inl st)
    with p parseArgs_Inl [of "posixly_correct env" appName args st] assms show ?thesis
      by (simp add: main_cases)
  next
    case gp: (Inr gp)
    with p have op: "op = []" by (simp add: parseArgs_Inr)
    obtain om rm where im: "initializeManager env gp = (om, rm)" by (cases "initializeManager env gp")
    show ?thesis
    proof (cases rm)
      case (Inl st)
      with im initializeManager_Inl [of env gp st] p gp assms show ?thesis by (auto simp: main_cases)
    next
      case s: (Inr s)
      obtain m calls where mc: "s = (m, calls)" by (cases s)
      obtain oc rc where ic: "initializeClients env gp = (oc, rc)" by (cases "initializeClients env gp")
      show ?thesis
      proof (cases rc)
        case (Inl st)
        with ic initializeClients_Inl [of env gp st] p gp im s assms show ?thesis by (auto simp: main_cases)
      next
        case cl: (Inr clients)
        show ?thesis
        proof (cases "thread_start env clients (fst s)")
          case None
          with p gp im s ic cl assms show ?thesis by (simp add: main_cases)
        next
          case (Some m')
          obtain ocl rcl where c: "cleanupManager env gp (m', snd s) = (ocl, rcl)"
            by (cases "cleanupManager env gp (m', snd s)")
          show ?thesis
          proof (cases rcl)
            case (Inl st)
            with c cleanupManager_Inl [of env gp "(m', snd s)" st] p gp im s ic cl Some assms show ?thesis
              by (simp add: main_cases)
          next
            case (Inr s')
            obtain m2 calls2 where s': "s' = (m2, calls2)" by (cases s')
            from c Inr s' mc cleanupManager_Inr [of env gp m' calls ocl m2 calls2]
            have "ocl = []" by auto
            with Inr c p gp op im s mc ic cl Some show ?thesis by (simp add: main_cases)
          qed
        qed
      qed
    qed
  qed
qed

lemma opt_lookup_vacation:
  "opt_lookup ''c:n:q:r:t:u:'' c = Some b \<Longrightarrow> c \<in> set ''cnqrtu''"
  by (auto simp: opt_lookup_def split: if_splits list.splits)

lemma getopt_run_opts:
  "(c, arg) \<in> set (fst (getopt_run posix os cs rest)) \<Longrightarrow> os = ''c:n:q:r:t:u:'' \<Longrightarrow>
     c = CHR ''?'' \<or> c \<in> set ''cnqrtu''"
proof (induction posix os cs rest rule: getopt_run.induct)
  case (1 posix optstring c' cs rest)
  show ?case
  proof (cases "opt_lookup optstring c'")
    case None
    with 1 show ?thesis by (auto split: prod.splits)
  next
    case (Some b)
    with "1.prems"(2) opt_lookup_vacation [of c' b] have c': "c' \<in> set ''cnqrtu''" by simp
    from Some 1 c' show ?thesis
      by (cases b) (auto split: prod.splits if_splits list.splits)
  qed
next
  case (2 posix optstring)
  then show ?case by simp
next
  case (3 posix optstring a rest)
  then show ?case by (auto split: if_splits prod.splits)
qed

lemma parse_fails_iff:
  "snd (fst (parse_opts posix args)) + length (snd (parse_opts posix args)) \<noteq> 0 \<longleftrightarrow>
     CHR ''?'' \<in> fst ` set (fst (getopt_run posix ''c:n:q:r:t:u:'' [] args)) \<or>
     snd (getopt_run posix ''c:n:q:r:t:u:'' [] args) \<noteq> []"
proof -
  obtain evs non where g: "getopt_run posix ''c:n:q:r:t:u:'' [] args = (evs, non)"
    by (cases "getopt_run posix ''c:n:q:r:t:u:'' [] args")
  have "filter (\<lambda>ev. fst ev \<notin> set ''cnqrtu'') evs \<noteq> [] \<longleftrightarrow> CHR ''?'' \<in> fst ` set evs"
  proof
    assume "filter (\<lambda>ev. fst ev \<notin> set ''cnqrtu'') evs \<noteq> []"
    then obtain ev where ev: "ev \<in> set evs" "fst ev \<notin> set ''cnqrtu''"
      by (auto simp: filter_empty_conv)
    then have "(fst ev, snd ev) \<in> set (fst (getopt_run posix ''c:n:q:r:t:u:'' [] args))" by (simp add: g)
    from getopt_run_opts [OF this] ev(2) have "fst ev = CHR ''?''" by blast
    with ev(1) show "CHR ''?'' \<in> fst ` set evs" by force
  next
    assume "CHR ''?'' \<in> fst ` set evs"
    then obtain ev where "ev \<in> set evs" "fst ev = CHR ''?''" by auto
    then show "filter (\<lambda>ev. fst ev \<notin> set ''cnqrtu'') evs \<noteq> []"
      by (auto simp: filter_empty_conv intro!: bexI [of _ ev])
  qed
  then show ?thesis
    by (auto simp: parse_opts_def g foldl_parse_opt_count)
qed

lemma malloc_small:
  assumes "\<forall>n. malloc_ok env n" and "0 \<le> k" and "k < 2 ^ 60"
  shows "k * 8 < 2 ^ 64 \<and> malloc env (size_t_of (k * 8))"
proof -
  have "0 \<le> k * 8" "k * 8 < 2 ^ 63" using assms(2,3) by simp_all
  then have "k * 8 < 2 ^ 64 \<and> size_t_of (k * 8) \<le> PTRDIFF_MAX"
    by (simp add: size_t_of_def PTRDIFF_MAX_def nat_le_iff)
  with assms(1) show ?thesis by (simp add: malloc_def)
qed

lemma main_ok:
  assumes "parseArgs (posixly_correct env) appName args = (op, Inr gp)"
    and "long_of_double (gp PARAM_CLIENTS) = Some numClient"
    and "long_of_double (gp PARAM_TRANSACTIONS) = Some numTransaction"
    and "long_of_double (gp PARAM_NUMBER) = Some nq"
    and "long_of_double (gp PARAM_RELATIONS) = Some numRelation"
    and "long_of_double (gp PARAM_QUERIES) = Some percentQuery"
    and "long_of_double (gp PARAM_USER) = Some percentUser"
    and "client_quota numTransaction numClient = Some quota"
    and "query_range percentQuery numRelation = Some qrange"
    and "0 \<le> numClient" and "numClient < 2 ^ 60" and "numRelation < 2 ^ 60"
    and "calls_succeed env"
    and "\<forall>m. thread_start env
            (map (\<lambda>i. \<lparr>c_id = int i, c_numTransactionPerClient = quota,
                        c_numQueryPerTransaction = nq, c_queryRange = qrange,
                        c_percentUser = percentUser\<rparr>) [0..<nat numClient]) m \<noteq> None"
  shows "main env appName args =
     ([(Stdout, ''Initializing manager... ''), (Stdout, ''done.'' @ nl),
       (Stdout, ''Initializing clients... ''), (Stdout, ''done.'' @ nl)] @
      fst (clients_summary numTransaction numClient quota nq numRelation percentQuery qrange
             percentUser) @
      [(Stdout, ''Running clients... ''), (Stdout, ''done.'' @ nl),
       (Stdout, ''Time = '' @ show_f6 (timer_diff_seconds env) @ nl),
       (Stdout, ''Deallocating memory... ''), (Stdout, ''done.'' @ nl)], Exit 0)"
proof -
  from assms(1) have op: "op = []" by (simp add: parseArgs_Inr)
  from assms(13) have e: "random_alloc env \<noteq> None" "manager_alloc env \<noteq> None"
    "\<forall>n. malloc_ok env n" "\<forall>t m i n p. fst (manager_add env t m i n p)" "\<forall>c. client_alloc env c"
    by (simp_all add: calls_succeed_def)
  have "numRelation \<le> 0 \<or> (numRelation * 8 < 2 ^ 64 \<and> malloc env (size_t_of (numRelation * 8)))"
    using malloc_small [OF e(3) _ assms(12)] by (cases "numRelation \<le> 0") simp_all
  from initializeManager_ok [where gp = gp, OF e(1,2) assms(5) this e(4)] obtain m calls where
    im: "initializeManager env gp =
           ([(Stdout, ''Initializing manager... ''), (Stdout, ''done.'' @ nl)], Inr (m, calls))"
    by blast
  have mc: "malloc env (size_t_of (numClient * 8))"
    using malloc_small [OF e(3) assms(10,11)] by simp
  note ic = initializeClients_ok [where gp = gp, OF assms(2,3,4,5,6,7,8,9) e(1) assms(10,11) mc e(5)]
  from assms(14) obtain m' where ts: "thread_start env
            (map (\<lambda>i. \<lparr>c_id = int i, c_numTransactionPerClient = quota,
                        c_numQueryPerTransaction = nq, c_queryRange = qrange,
                        c_percentUser = percentUser\<rparr>) [0..<nat numClient]) m = Some m'"
    by blast
  from cleanupManager_ok [where gp = gp and numRelation = numRelation and env = env and s = "(m', calls)", OF assms(5)]
  obtain m2 calls2 where c: "cleanupManager env gp (m', calls) = ([], Inr (m2, calls2))" by blast
  show ?thesis
    by (simp add: main_cases assms(1) op im ic ts c)
qed

subsection \<open>printf conversions\<close>

lemma isdigit_digit_char: "d < 10 \<Longrightarrow> isdigit (digit_char d)"
proof -
  assume "d < 10"
  then have "d \<in> {0, 1, 2, 3, 4, 5, 6, 7, 8, 9}" by auto
  then show ?thesis by (auto simp: digit_char_def isdigit_def)
qed

lemma show_nat_digits: "list_all isdigit (show_nat n) \<and> show_nat n \<noteq> []"
proof (induction n rule: show_nat.induct)
  case (1 n)
  show ?case
  proof (cases "n < 10")
    case True
    then show ?thesis by (simp add: show_nat.simps [of n] isdigit_digit_char)
  next
    case False
    with 1 show ?thesis by (simp add: show_nat.simps [of n] isdigit_digit_char)
  qed
qed

lemma length_show_nat: "n < 10 ^ k \<Longrightarrow> 0 < k \<Longrightarrow> length (show_nat n) \<le> k"
proof (induction n arbitrary: k rule: show_nat.induct)
  case (1 n)
  show ?case
  proof (cases "n < 10")
    case True
    with "1.prems" show ?thesis by (simp add: show_nat.simps [of n])
  next
    case False
    with "1.prems" obtain j where k: "k = Suc j" by (cases k) auto
    have j0: "0 < j" using False "1.prems" k by (cases j) auto
    have "n div 10 < 10 ^ j" using "1.prems"(1) k by (simp add: less_mult_imp_div_less mult.commute)
    from "1.IH" [OF False this j0] False k show ?thesis by (simp add: show_nat.simps [of n])
  qed
qed

lemma pad6_shape: "k < 10 ^ 6 \<Longrightarrow> length (pad6 k) = 6 \<and> list_all isdigit (pad6 k)"
proof -
  assume "k < 10 ^ 6"
  then have "length (show_nat k) \<le> 6" by (rule length_show_nat) simp
  moreover have "isdigit (CHR ''0'')" by (simp add: isdigit_def)
  ultimately show ?thesis using show_nat_digits [of k]
    by (auto simp: pad6_def list_all_iff)
qed

lemma show_f6_shape:
  "\<exists>ip fp. show_f6 d = ip @ ''.'' @ fp \<and> ip \<noteq> [] \<and> length fp = 6 \<and> list_all isdigit fp"
proof -
  define n where "n = round_even (\<bar>d\<bar> * 10 ^ 6)"
  have "nat (n mod 10 ^ 6) < 10 ^ 6"
  proof -
    have "n mod 10 ^ 6 < 10 ^ 6" by simp
    then show ?thesis by (simp add: nat_less_iff)
  qed
  from pad6_shape [OF this] show_nat_digits [of "nat (n div 10 ^ 6)"] show ?thesis
    unfolding show_f6_def n_def [symmetric] Let_def
    by (intro exI [of _ "(if d < 0 then ''-'' else []) @ show_nat (nat (n div 10 ^ 6))"]
              exI [of _ "pad6 (nat (n mod 10 ^ 6))"]) simp
qed

lemma main_completes:
  assumes "parseArgs (posixly_correct env) appName args = (op, Inr gp)"
    and "long_of_double (gp PARAM_CLIENTS) = Some c"
    and "long_of_double (gp PARAM_TRANSACTIONS) = Some t"
    and "long_of_double (gp PARAM_NUMBER) = Some nq"
    and "long_of_double (gp PARAM_RELATIONS) = Some r"
    and "long_of_double (gp PARAM_QUERIES) = Some q"
    and "long_of_double (gp PARAM_USER) = Some u"
    and "0 \<le> t" and "1 \<le> c" and "6 * t + c < 2 ^ 53"
    and "0 \<le> q" and "0 \<le> r" and "q \<le> 2 ^ 53" and "r \<le> 2 ^ 53" and "14 * (q * r) + 100 < 2 ^ 53"
    and "calls_succeed env"
    and "\<forall>cl m. thread_start env cl m \<noteq> None"
  shows "snd (main env appName args) = Exit 0"
proof -
  have "4 * t + c < 2 ^ 53" using assms(8,10) by simp
  from client_quota_nearest [OF assms(8,9) this] obtain quota where qu: "client_quota t c = Some quota"
    by blast
  have "0 \<le> q * r" using assms(11,12) by simp
  with assms(15) have "6 * (q * r) + 101 < 2 ^ 53" by simp
  from query_range_nearest [OF assms(11,12) this] obtain qrange where qr: "query_range q r = Some qrange"
    by blast
  have c0: "0 \<le> c" using assms(9) by simp
  have c60: "c < 2 ^ 60" using assms(8,10) by simp
  have r60: "r < 2 ^ 60" using assms(14) by simp
  have ts: "\<forall>m. thread_start env
            (map (\<lambda>i. \<lparr>c_id = int i, c_numTransactionPerClient = quota,
                        c_numQueryPerTransaction = nq, c_queryRange = qrange,
                        c_percentUser = u\<rparr>) [0..<nat c]) m \<noteq> None"
    using assms(17) by blast
  from main_ok [where gp = gp, OF assms(1,2,3,4,5,6,7) qu qr c0 c60 r60 assms(16) ts]
  show ?thesis by simp
qed

lemma calls_succeed_demo: "calls_succeed demo_env"
  using demo_env_adds by (simp add: calls_succeed_def) (simp add: demo_env_def)

lemma thread_start_demo: "\<forall>cl m. thread_start demo_env cl m \<noteq> None"
  by (simp add: demo_env_def)

lemma client_quota_zero:
  assumes "c \<noteq> 0"
  shows "client_quota 0 c = Some 0"
proof -
  have "double_of_long c \<noteq> 0" using assms by (simp add: double_of_long_def fl_eq_0_iff)
  moreover have "double_of_long 0 = 0" by (simp add: double_of_long_def fl_def)
  moreover have "fl 0 = 0" by (simp add: fl_def)
  moreover have "long_of_double (1 / 2) = Some 0"
    by (simp add: long_of_double_def LONG_MIN_def LONG_MAX_def floor_half)
  ultimately show ?thesis by (simp add: client_quota_def ddiv_def dadd_def fl_half)
qed


lemmas parse_eval = parse_opts_def opt_lookup_def is_option_def parse_opt_def setDefaultParams_def
  PARAM_CLIENTS_def PARAM_NUMBER_def PARAM_QUERIES_def PARAM_RELATIONS_def
  PARAM_TRANSACTIONS_def PARAM_USER_def PARAM_DEFAULT_CLIENTS_def PARAM_DEFAULT_NUMBER_def
  PARAM_DEFAULT_QUERIES_def PARAM_DEFAULT_RELATIONS_def PARAM_DEFAULT_TRANSACTIONS_def
  PARAM_DEFAULT_USER_def atol_def isspace_def isdigit_def digits_value_def LONG_MIN_def
  LONG_MAX_def double_of_long_exact

lemma parsed_longs:
  assumes "gp p = of_int v" and "LONG_MIN \<le> v" and "v \<le> LONG_MAX"
  shows "long_of_double (gp p) = Some v"
  using assms by (simp add: long_of_double_of_int)

lemma posixly_correct_demo: "posixly_correct demo_env = False"
  by (simp add: demo_env_def)













lemma stdout_text_stdout: "stdout_text (map (Pair Stdout) xs) = concat xs"
  by (simp add: stdout_text_def comp_def)

text \<open>
  C7: A run that ends with exit code 0 has printed, in this order: the line of the
  manager initialisation ending in \<open>done.\<close>, the line of the client initialisation
  ending in \<open>done.\<close>, the eight lines of the initialisation summary, the line of the
  parallel phase ending in \<open>done.\<close>, the line \<open>Time = \<close> with the elapsed seconds printed
  with six digits after the decimal point, and the line of the deallocation ending in
  \<open>done.\<close>.
\<close>

theorem successful_run_output:
  assumes "snd (main env appName args) = Exit 0"
  shows "\<exists>nt nc quota nq nr pq qr pu ip fp.
     stdout_text (fst (main env appName args)) =
       ''Initializing manager... '' @ ''done.'' @ nl @
       ''Initializing clients... '' @ ''done.'' @ nl @
       ''    Transactions        = '' @ show_long nt @ nl @
       ''    Clients             = '' @ show_long nc @ nl @
       ''    Transactions/client = '' @ show_long quota @ nl @
       ''    Queries/transaction = '' @ show_long nq @ nl @
       ''    Relations           = '' @ show_long nr @ nl @
       ''    Query percent       = '' @ show_long pq @ nl @
       ''    Query range         = '' @ show_long qr @ nl @
       ''    Percent user        = '' @ show_long pu @ nl @
       ''Running clients... '' @ ''done.'' @ nl @
       ''Time = '' @ ip @ ''.'' @ fp @ nl @
       ''Deallocating memory... '' @ ''done.'' @ nl \<and>
     ip @ ''.'' @ fp = show_f6 (timer_diff_seconds env) \<and> ip \<noteq> [] \<and>
     length fp = 6 \<and> list_all isdigit fp"
proof -
  from main_Exit0 [OF assms] obtain gp om m calls oc clients where
    im: "initializeManager env gp = (om, Inr (m, calls))" and
    ic: "initializeClients env gp = (oc, Inr clients)" and
    out: "fst (main env appName args) = om @ oc @
        [(Stdout, ''Running clients... ''), (Stdout, ''done.'' @ nl),
         (Stdout, ''Time = '' @ show_f6 (timer_diff_seconds env) @ nl),
         (Stdout, ''Deallocating memory... ''), (Stdout, ''done.'' @ nl)]"
    by blast
  from initializeManager_Inr [OF im]
  have om: "om = [(Stdout, ''Initializing manager... ''), (Stdout, ''done.'' @ nl)]" by blast
  from initializeClients_Inr [OF ic] obtain nc nt nq nr pq pu quota qr where
    oc: "oc = [(Stdout, ''Initializing clients... ''), (Stdout, ''done.'' @ nl)] @
           fst (clients_summary nt nc quota nq nr pq qr pu)"
    by blast
  from show_f6_shape [of "timer_diff_seconds env"] obtain ip fp where
    f: "show_f6 (timer_diff_seconds env) = ip @ ''.'' @ fp" "ip \<noteq> []" "length fp = 6"
       "list_all isdigit fp"
    by blast
  have "stdout_text (fst (main env appName args)) =
       ''Initializing manager... '' @ ''done.'' @ nl @
       ''Initializing clients... '' @ ''done.'' @ nl @
       ''    Transactions        = '' @ show_long nt @ nl @
       ''    Clients             = '' @ show_long nc @ nl @
       ''    Transactions/client = '' @ show_long quota @ nl @
       ''    Queries/transaction = '' @ show_long nq @ nl @
       ''    Relations           = '' @ show_long nr @ nl @
       ''    Query percent       = '' @ show_long pq @ nl @
       ''    Query range         = '' @ show_long qr @ nl @
       ''    Percent user        = '' @ show_long pu @ nl @
       ''Running clients... '' @ ''done.'' @ nl @
       ''Time = '' @ ip @ ''.'' @ fp @ nl @
       ''Deallocating memory... '' @ ''done.'' @ nl"
    by (simp add: out om oc clients_summary_eq stdout_text_def f(1))
  with f show ?thesis by metis
qed

lemma demo_parse:
  "parseArgs (posixly_correct demo_env) ''./vacation'' [''-c2'', ''-t0'', ''-r3'', ''-q50''] =
     ([], Inr (fst (fst (parse_opts False [''-c2'', ''-t0'', ''-r3'', ''-q50'']))))"
  "long_of_double (fst (fst (parse_opts False [''-c2'', ''-t0'', ''-r3'', ''-q50''])) PARAM_CLIENTS) = Some 2"
  "long_of_double (fst (fst (parse_opts False [''-c2'', ''-t0'', ''-r3'', ''-q50''])) PARAM_TRANSACTIONS) = Some 0"
  "long_of_double (fst (fst (parse_opts False [''-c2'', ''-t0'', ''-r3'', ''-q50''])) PARAM_NUMBER) = Some 10"
  "long_of_double (fst (fst (parse_opts False [''-c2'', ''-t0'', ''-r3'', ''-q50''])) PARAM_RELATIONS) = Some 3"
  "long_of_double (fst (fst (parse_opts False [''-c2'', ''-t0'', ''-r3'', ''-q50''])) PARAM_QUERIES) = Some 50"
  "long_of_double (fst (fst (parse_opts False [''-c2'', ''-t0'', ''-r3'', ''-q50''])) PARAM_USER) = Some 80"
proof -
  define gp where "gp = fst (fst (parse_opts False [''-c2'', ''-t0'', ''-r3'', ''-q50'']))"
  have "snd (fst (parse_opts False [''-c2'', ''-t0'', ''-r3'', ''-q50''])) = 0 \<and>
        snd (parse_opts False [''-c2'', ''-t0'', ''-r3'', ''-q50'']) = []"
    by (simp add: parse_opts_def opt_lookup_def is_option_def parse_opt_def)
  then have "parse_opts False [''-c2'', ''-t0'', ''-r3'', ''-q50''] = ((gp, 0), [])"
    unfolding gp_def by (metis prod.collapse)
  then show "parseArgs (posixly_correct demo_env) ''./vacation'' [''-c2'', ''-t0'', ''-r3'', ''-q50''] =
     ([], Inr (fst (fst (parse_opts False [''-c2'', ''-t0'', ''-r3'', ''-q50'']))))"
    unfolding gp_def [symmetric] by (simp add: parseArgs_Inr posixly_correct_demo)
  have v: "gp PARAM_CLIENTS = of_int 2" "gp PARAM_TRANSACTIONS = of_int 0"
    "gp PARAM_NUMBER = of_int 10" "gp PARAM_RELATIONS = of_int 3"
    "gp PARAM_QUERIES = of_int 50" "gp PARAM_USER = of_int 80"
    unfolding gp_def by (simp_all add: parse_eval)
  show "long_of_double (fst (fst (parse_opts False [''-c2'', ''-t0'', ''-r3'', ''-q50''])) PARAM_CLIENTS) = Some 2"
    "long_of_double (fst (fst (parse_opts False [''-c2'', ''-t0'', ''-r3'', ''-q50''])) PARAM_TRANSACTIONS) = Some 0"
    "long_of_double (fst (fst (parse_opts False [''-c2'', ''-t0'', ''-r3'', ''-q50''])) PARAM_NUMBER) = Some 10"
    "long_of_double (fst (fst (parse_opts False [''-c2'', ''-t0'', ''-r3'', ''-q50''])) PARAM_RELATIONS) = Some 3"
    "long_of_double (fst (fst (parse_opts False [''-c2'', ''-t0'', ''-r3'', ''-q50''])) PARAM_QUERIES) = Some 50"
    "long_of_double (fst (fst (parse_opts False [''-c2'', ''-t0'', ''-r3'', ''-q50''])) PARAM_USER) = Some 80"
    unfolding gp_def [symmetric]
    by (rule parsed_longs, rule v, simp add: LONG_MIN_def, simp add: LONG_MAX_def)+
qed

lemma demo_run_exits_0:
  "snd (main demo_env ''./vacation'' [''-c2'', ''-t0'', ''-r3'', ''-q50'']) = Exit 0"
  by (rule main_completes [OF demo_parse(1,2,3,4,5,6,7) _ _ _ _ _ _ _ _ calls_succeed_demo thread_start_demo])
     simp_all

theorem successful_run_output_witness:
  "\<exists>nt nc quota nq nr pq qr pu ip fp.
     stdout_text (fst (main demo_env ''./vacation'' [''-c2'', ''-t0'', ''-r3'', ''-q50''])) =
       ''Initializing manager... '' @ ''done.'' @ nl @
       ''Initializing clients... '' @ ''done.'' @ nl @
       ''    Transactions        = '' @ show_long nt @ nl @
       ''    Clients             = '' @ show_long nc @ nl @
       ''    Transactions/client = '' @ show_long quota @ nl @
       ''    Queries/transaction = '' @ show_long nq @ nl @
       ''    Relations           = '' @ show_long nr @ nl @
       ''    Query percent       = '' @ show_long pq @ nl @
       ''    Query range         = '' @ show_long qr @ nl @
       ''    Percent user        = '' @ show_long pu @ nl @
       ''Running clients... '' @ ''done.'' @ nl @
       ''Time = '' @ ip @ ''.'' @ fp @ nl @
       ''Deallocating memory... '' @ ''done.'' @ nl \<and>
     ip @ ''.'' @ fp = show_f6 (timer_diff_seconds demo_env) \<and> ip \<noteq> [] \<and>
     length fp = 6 \<and> list_all isdigit fp"
  by (rule successful_run_output [OF demo_run_exits_0])

text \<open>
  C6: With \<open>-t0\<close>, which parses to zero transactions, and otherwise valid arguments
  (at least one client, a percentage between 0 and 100 of at most \<open>2^40\<close> relations),
  in an environment where no allocation and no add on the manager fails and where the
  thread pool returns when it is started on the clients constructed here: every client
  is constructed with a transaction quota of 0, these clients are the ones the thread
  pool is started on, the program prints the initialisation summary with
  \<open>Transactions = 0\<close> and \<open>Transactions/client = 0\<close>, and it exits with code 0.
\<close>

theorem zero_transactions_run:
  assumes "parseArgs (posixly_correct env) appName args = (op, Inr gp)"
    and "long_of_double (gp PARAM_TRANSACTIONS) = Some 0"
    and "long_of_double (gp PARAM_CLIENTS) = Some c" and "1 \<le> c" and "c < 2 ^ 60"
    and "long_of_double (gp PARAM_NUMBER) = Some nq"
    and "long_of_double (gp PARAM_RELATIONS) = Some r" and "0 \<le> r" and "r \<le> 2 ^ 40"
    and "long_of_double (gp PARAM_QUERIES) = Some q" and "0 \<le> q" and "q \<le> 100"
    and "long_of_double (gp PARAM_USER) = Some u"
    and "calls_succeed env"
    and "\<forall>qrange m. thread_start env
            (map (\<lambda>i. \<lparr>c_id = int i, c_numTransactionPerClient = 0,
                        c_numQueryPerTransaction = nq, c_queryRange = qrange,
                        c_percentUser = u\<rparr>) [0..<nat c]) m \<noteq> None"
  shows "\<exists>qrange. query_range q r = Some qrange \<and>
     snd (initializeClients env gp) =
       Inr (map (\<lambda>i. \<lparr>c_id = int i, c_numTransactionPerClient = 0,
                        c_numQueryPerTransaction = nq, c_queryRange = qrange,
                        c_percentUser = u\<rparr>) [0..<nat c]) \<and>
     (\<exists>m calls m'. snd (initializeManager env gp) = Inr (m, calls) \<and>
        thread_start env
          (map (\<lambda>i. \<lparr>c_id = int i, c_numTransactionPerClient = 0,
                        c_numQueryPerTransaction = nq, c_queryRange = qrange,
                        c_percentUser = u\<rparr>) [0..<nat c]) m = Some m') \<and>
     main env appName args =
       ([(Stdout, ''Initializing manager... ''), (Stdout, ''done.'' @ nl),
         (Stdout, ''Initializing clients... ''), (Stdout, ''done.'' @ nl)] @
        fst (clients_summary 0 c 0 nq r q qrange u) @
        [(Stdout, ''Running clients... ''), (Stdout, ''done.'' @ nl),
         (Stdout, ''Time = '' @ show_f6 (timer_diff_seconds env) @ nl),
         (Stdout, ''Deallocating memory... ''), (Stdout, ''done.'' @ nl)], Exit 0)"
proof -
  have qu: "client_quota 0 c = Some 0" using assms(4) by (intro client_quota_zero) simp
  have "q * r \<le> 100 * r" using assms(8,12) by (intro mult_right_mono) simp_all
  with assms(9) have "6 * (q * r) + 101 < 2 ^ 53" by simp
  from query_range_nearest [OF assms(11,8) this]
  obtain qrange where qr: "query_range q r = Some qrange" by auto
  have c0: "0 \<le> c" using assms(4) by simp
  have r60: "r < 2 ^ 60" using assms(9) by simp
  define clients where "clients = map (\<lambda>i. \<lparr>c_id = int i, c_numTransactionPerClient = 0,
                        c_numQueryPerTransaction = nq, c_queryRange = qrange,
                        c_percentUser = u\<rparr>) [0..<nat c]"
  from assms(15) have ts: "\<forall>m. thread_start env clients m \<noteq> None"
    unfolding clients_def by blast
  from assms(14) have e: "random_alloc env \<noteq> None" "\<forall>n. malloc_ok env n" "\<forall>c. client_alloc env c"
    by (simp_all add: calls_succeed_def)
  have mc: "malloc env (size_t_of (c * 8))" using malloc_small [OF e(2) c0 assms(5)] by simp
  have ic: "snd (initializeClients env gp) = Inr clients"
    unfolding clients_def
    using initializeClients_ok [where gp = gp, OF assms(3,2,6,7,10,13) qu qr e(1) c0 assms(5) mc e(3)]
    by simp
  note m = main_ok [where gp = gp, OF assms(1,3,2,6,7,10,13) qu qr c0 assms(5) r60 assms(14)
      ts [unfolded clients_def]]
  from m have "snd (main env appName args) = Exit 0" by simp
  from main_Exit0 [OF this] obtain gp' om m0 calls oc clients' m' where
    x: "parseArgs (posixly_correct env) appName args = ([], Inr gp')"
       "initializeManager env gp' = (om, Inr (m0, calls))"
       "initializeClients env gp' = (oc, Inr clients')"
       "thread_start env clients' m0 = Some m'"
    by blast
  from x(1) assms(1) have g: "gp' = gp" by simp
  from x(3) ic have cl: "clients' = clients" by (simp add: g)
  from x(2,4) have "\<exists>m calls m'. snd (initializeManager env gp) = Inr (m, calls) \<and>
        thread_start env clients m = Some m'"
    unfolding g cl by auto
  with qr ic m show ?thesis unfolding clients_def by blast
qed

lemma fl_3_halves: "fl (3 / 2) = 3 / 2"
  using fl_exact [of 3 "- 1"] by simp

lemma fl_2: "fl 2 = 2"
  using fl_of_int [of 2] by simp

lemma query_range_50_3: "query_range 50 3 = Some 2"
proof -
  have "double_of_long 50 = 50" "double_of_long 3 = 3"
    using double_of_long_exact [of 50] double_of_long_exact [of 3] by simp_all
  then show ?thesis
    by (simp add: query_range_def ddiv_def dmul_def dadd_def fl_half fl_3_halves fl_2
        long_of_double_def LONG_MIN_def LONG_MAX_def)
qed

lemma show_nat_0: "show_nat 0 = ''0''"
  by (subst show_nat.simps) (simp add: digit_char_def)

lemma show_nat_333333: "show_nat 333333 = ''333333''"
  by (simp add: show_nat.simps digit_char_def)

lemma show_f6_third: "show_f6 (1 / 3) = ''0.333333''"
proof -
  have "\<lfloor>1000000 / 3 :: rat\<rfloor> = 333333" by (rule floor_unique) simp_all
  then have "round_even (1000000 / 3) = 333333" by (simp add: round_even_def)
  moreover have "\<bar>1 / 3 :: rat\<bar> * 10 ^ 6 = 1000000 / 3" by simp
  ultimately have r: "round_even (\<bar>1 / 3\<bar> * 10 ^ 6) = 333333" by (simp only:)
  show ?thesis
    unfolding show_f6_def r Let_def
    by (simp add: pad6_def show_nat_0 show_nat_333333)
qed

theorem zero_transactions_run_witness:
  "main demo_env ''./vacation'' [''-c2'', ''-t0'', ''-r3'', ''-q50''] =
     ([(Stdout, ''Initializing manager... ''), (Stdout, ''done.'' @ nl),
       (Stdout, ''Initializing clients... ''), (Stdout, ''done.'' @ nl),
       (Stdout, ''    Transactions        = 0'' @ nl),
       (Stdout, ''    Clients             = 2'' @ nl),
       (Stdout, ''    Transactions/client = 0'' @ nl),
       (Stdout, ''    Queries/transaction = 10'' @ nl),
       (Stdout, ''    Relations           = 3'' @ nl),
       (Stdout, ''    Query percent       = 50'' @ nl),
       (Stdout, ''    Query range         = 2'' @ nl),
       (Stdout, ''    Percent user        = 80'' @ nl),
       (Stdout, ''Running clients... ''), (Stdout, ''done.'' @ nl),
       (Stdout, ''Time = 0.333333'' @ nl),
       (Stdout, ''Deallocating memory... ''), (Stdout, ''done.'' @ nl)], Exit 0) \<and>
   snd (initializeClients demo_env (fst (fst (parse_opts False [''-c2'', ''-t0'', ''-r3'', ''-q50''])))) =
     Inr [\<lparr>c_id = 0, c_numTransactionPerClient = 0, c_numQueryPerTransaction = 10,
            c_queryRange = 2, c_percentUser = 80\<rparr>,
          \<lparr>c_id = 1, c_numTransactionPerClient = 0, c_numQueryPerTransaction = 10,
            c_queryRange = 2, c_percentUser = 80\<rparr>] \<and>
   (\<exists>m calls m'.
      snd (initializeManager demo_env (fst (fst (parse_opts False [''-c2'', ''-t0'', ''-r3'', ''-q50''])))) =
        Inr (m, calls) \<and>
      thread_start demo_env
        [\<lparr>c_id = 0, c_numTransactionPerClient = 0, c_numQueryPerTransaction = 10,
            c_queryRange = 2, c_percentUser = 80\<rparr>,
          \<lparr>c_id = 1, c_numTransactionPerClient = 0, c_numQueryPerTransaction = 10,
            c_queryRange = 2, c_percentUser = 80\<rparr>] m = Some m')"
proof -
  have t: "\<forall>qrange m. thread_start demo_env
            (map (\<lambda>i. \<lparr>c_id = int i, c_numTransactionPerClient = 0,
                        c_numQueryPerTransaction = 10, c_queryRange = qrange,
                        c_percentUser = 80\<rparr>) [0..<nat 2]) m \<noteq> None"
    by (simp add: demo_env_def)
  have d: "timer_diff_seconds demo_env = 1 / 3" by (simp add: demo_env_def)
  have u: "[0..<nat 2] = [0, 1]" by (simp add: upt_rec)
  define gp where "gp = fst (fst (parse_opts False [''-c2'', ''-t0'', ''-r3'', ''-q50'']))"
  note p = demo_parse [folded gp_def]
  from zero_transactions_run [OF p(1,3,2) _ _ p(4,5) _ _ p(6) _ _ p(7) calls_succeed_demo t]
  obtain qrange where q: "query_range 50 3 = Some qrange" and
    i: "snd (initializeClients demo_env gp) =
       Inr (map (\<lambda>i. \<lparr>c_id = int i, c_numTransactionPerClient = 0,
                        c_numQueryPerTransaction = 10, c_queryRange = qrange,
                        c_percentUser = 80\<rparr>) [0..<nat 2])" and
    ts: "\<exists>m calls m'. snd (initializeManager demo_env gp) = Inr (m, calls) \<and>
        thread_start demo_env
          (map (\<lambda>i. \<lparr>c_id = int i, c_numTransactionPerClient = 0,
                        c_numQueryPerTransaction = 10, c_queryRange = qrange,
                        c_percentUser = 80\<rparr>) [0..<nat 2]) m = Some m'" and
    m: "main demo_env ''./vacation'' [''-c2'', ''-t0'', ''-r3'', ''-q50''] =
       ([(Stdout, ''Initializing manager... ''), (Stdout, ''done.'' @ nl),
         (Stdout, ''Initializing clients... ''), (Stdout, ''done.'' @ nl)] @
        fst (clients_summary 0 2 0 10 3 50 qrange 80) @
        [(Stdout, ''Running clients... ''), (Stdout, ''done.'' @ nl),
         (Stdout, ''Time = '' @ show_f6 (timer_diff_seconds demo_env) @ nl),
         (Stdout, ''Deallocating memory... ''), (Stdout, ''done.'' @ nl)], Exit 0)"
    by auto
  from q have q2: "qrange = 2" by (simp add: query_range_50_3)
  have sl: "show_long 0 = ''0''" "show_long 2 = ''2''" "show_long 10 = ''10''"
    "show_long 3 = ''3''" "show_long 50 = ''50''" "show_long 80 = ''80''"
    by (simp_all add: show_long_def show_nat.simps digit_char_def)
  have 1: "main demo_env ''./vacation'' [''-c2'', ''-t0'', ''-r3'', ''-q50''] =
     ([(Stdout, ''Initializing manager... ''), (Stdout, ''done.'' @ nl),
       (Stdout, ''Initializing clients... ''), (Stdout, ''done.'' @ nl),
       (Stdout, ''    Transactions        = 0'' @ nl),
       (Stdout, ''    Clients             = 2'' @ nl),
       (Stdout, ''    Transactions/client = 0'' @ nl),
       (Stdout, ''    Queries/transaction = 10'' @ nl),
       (Stdout, ''    Relations           = 3'' @ nl),
       (Stdout, ''    Query percent       = 50'' @ nl),
       (Stdout, ''    Query range         = 2'' @ nl),
       (Stdout, ''    Percent user        = 80'' @ nl),
       (Stdout, ''Running clients... ''), (Stdout, ''done.'' @ nl),
       (Stdout, ''Time = 0.333333'' @ nl),
       (Stdout, ''Deallocating memory... ''), (Stdout, ''done.'' @ nl)], Exit 0)"
    unfolding m q2 d show_f6_third by (simp add: clients_summary_eq sl)
  from i have 2: "snd (initializeClients demo_env gp) =
     Inr [\<lparr>c_id = 0, c_numTransactionPerClient = 0, c_numQueryPerTransaction = 10,
            c_queryRange = 2, c_percentUser = 80\<rparr>,
          \<lparr>c_id = 1, c_numTransactionPerClient = 0, c_numQueryPerTransaction = 10,
            c_queryRange = 2, c_percentUser = 80\<rparr>]"
    unfolding q2 u by simp
  from ts have 3: "\<exists>m calls m'. snd (initializeManager demo_env gp) = Inr (m, calls) \<and>
      thread_start demo_env
        [\<lparr>c_id = 0, c_numTransactionPerClient = 0, c_numQueryPerTransaction = 10,
            c_queryRange = 2, c_percentUser = 80\<rparr>,
          \<lparr>c_id = 1, c_numTransactionPerClient = 0, c_numQueryPerTransaction = 10,
            c_queryRange = 2, c_percentUser = 80\<rparr>] m = Some m'"
    unfolding q2 u by simp
  from 1 2 3 show ?thesis unfolding gp_def by blast
qed


lemma initializeClients_negative:
  assumes "long_of_double (gp PARAM_CLIENTS) = Some (- 1)"
    and "long_of_double (gp PARAM_TRANSACTIONS) = Some t"
    and "long_of_double (gp PARAM_NUMBER) = Some nq"
    and "long_of_double (gp PARAM_RELATIONS) = Some r"
    and "long_of_double (gp PARAM_QUERIES) = Some q"
    and "long_of_double (gp PARAM_USER) = Some u"
  shows "initializeClients demo_env gp = ([(Stdout, ''Initializing clients... '')], Inl Abort)"
proof -
  have "\<not> malloc demo_env (size_t_of (- 1 * 8))"
    by (simp add: malloc_def size_t_of_def PTRDIFF_MAX_def)
  then show ?thesis
    using assms
    by (simp add: initializeClients_def io_then_def io_bind_def printf_def c_assert_def
        io_stop_def io_return_def demo_env_def)
qed

lemma parse_negative_clients:
  "parseArgs False ''./vacation'' [''-c-1''] = ([], Inr (fst (fst (parse_opts False [''-c-1'']))))"
  "long_of_double (fst (fst (parse_opts False [''-c-1''])) PARAM_CLIENTS) = Some (- 1)"
  "long_of_double (fst (fst (parse_opts False [''-c-1''])) PARAM_TRANSACTIONS) = Some 67108864"
  "long_of_double (fst (fst (parse_opts False [''-c-1''])) PARAM_NUMBER) = Some 10"
  "long_of_double (fst (fst (parse_opts False [''-c-1''])) PARAM_RELATIONS) = Some 65536"
  "long_of_double (fst (fst (parse_opts False [''-c-1''])) PARAM_QUERIES) = Some 90"
  "long_of_double (fst (fst (parse_opts False [''-c-1''])) PARAM_USER) = Some 80"
proof -
  define gp where "gp = fst (fst (parse_opts False [''-c-1'']))"
  have "snd (fst (parse_opts False [''-c-1''])) = 0 \<and> snd (parse_opts False [''-c-1'']) = []"
    by (simp add: parse_opts_def opt_lookup_def is_option_def parse_opt_def)
  then have "parse_opts False [''-c-1''] = ((gp, 0), [])"
    unfolding gp_def by (metis prod.collapse)
  then show "parseArgs False ''./vacation'' [''-c-1''] =
      ([], Inr (fst (fst (parse_opts False [''-c-1'']))))"
    unfolding gp_def [symmetric] by (simp add: parseArgs_Inr)
  have v: "gp PARAM_CLIENTS = of_int (- 1)" "gp PARAM_TRANSACTIONS = of_int 67108864"
    "gp PARAM_NUMBER = of_int 10" "gp PARAM_RELATIONS = of_int 65536"
    "gp PARAM_QUERIES = of_int 90" "gp PARAM_USER = of_int 80"
    unfolding gp_def by (simp_all add: parse_eval)
  show "long_of_double (fst (fst (parse_opts False [''-c-1''])) PARAM_CLIENTS) = Some (- 1)"
  "long_of_double (fst (fst (parse_opts False [''-c-1''])) PARAM_TRANSACTIONS) = Some 67108864"
  "long_of_double (fst (fst (parse_opts False [''-c-1''])) PARAM_NUMBER) = Some 10"
  "long_of_double (fst (fst (parse_opts False [''-c-1''])) PARAM_RELATIONS) = Some 65536"
  "long_of_double (fst (fst (parse_opts False [''-c-1''])) PARAM_QUERIES) = Some 90"
  "long_of_double (fst (fst (parse_opts False [''-c-1''])) PARAM_USER) = Some 80"
    unfolding gp_def [symmetric]
    by (rule parsed_longs, rule v, simp add: LONG_MIN_def, simp add: LONG_MAX_def)+
qed

text \<open>
  C4, as amended: the program exits with code 1 if and only if argument parsing fails,
  that is, \<open>getopt\<close> returns \<open>?\<close> (an unknown option or a missing required argument) or a
  non-option argument is present. A run whose arguments parse returns exit code 0
  exactly when the two initialisations, the thread pool and the cleanup all return;
  otherwise it is aborted by a failed \<open>assert\<close>, its behaviour is undefined, or the
  thread pool does not return.
\<close>

theorem exit_code_1_iff_parse_fails:
  "(snd (main env appName args) = Exit 1 \<longleftrightarrow>
      CHR ''?'' \<in> fst ` set (fst (getopt_run (posixly_correct env) ''c:n:q:r:t:u:'' [] args)) \<or>
      snd (getopt_run (posixly_correct env) ''c:n:q:r:t:u:'' [] args) \<noteq> []) \<and>
   (snd (main env appName args) \<noteq> Exit 1 \<longrightarrow>
      snd (main env appName args) = Exit 0 \<or> snd (main env appName args) = Abort \<or>
      snd (main env appName args) = Undefined \<or> snd (main env appName args) = Hang) \<and>
   (snd (main env appName args) = Exit 0 \<longleftrightarrow>
      (\<exists>gp s clients m' s'.
         snd (parseArgs (posixly_correct env) appName args) = Inr gp \<and>
         snd (initializeManager env gp) = Inr s \<and>
         snd (initializeClients env gp) = Inr clients \<and>
         thread_start env clients (fst s) = Some m' \<and>
         snd (cleanupManager env gp (m', snd s)) = Inr s'))"
proof -
  define posix where "posix = posixly_correct env"
  have f: "isl (snd (parseArgs posix appName args)) \<longleftrightarrow>
      CHR ''?'' \<in> fst ` set (fst (getopt_run posix ''c:n:q:r:t:u:'' [] args)) \<or>
      snd (getopt_run posix ''c:n:q:r:t:u:'' [] args) \<noteq> []"
    using parseArgs_Inl [of posix appName args] parse_fails_iff [of posix args]
    by (cases "snd (parseArgs posix appName args)") auto
  note ms = main_status [of env appName args, folded posix_def]
  have 1: "snd (main env appName args) = Exit 1 \<longleftrightarrow>
      CHR ''?'' \<in> fst ` set (fst (getopt_run posix ''c:n:q:r:t:u:'' [] args)) \<or>
      snd (getopt_run posix ''c:n:q:r:t:u:'' [] args) \<noteq> []"
    unfolding f [symmetric] using ms by auto
  have 2: "snd (main env appName args) \<noteq> Exit 1 \<longrightarrow>
      snd (main env appName args) = Exit 0 \<or> snd (main env appName args) = Abort \<or>
      snd (main env appName args) = Undefined \<or> snd (main env appName args) = Hang"
    using ms by auto
  have 3: "snd (main env appName args) = Exit 0 \<longleftrightarrow>
      (\<exists>gp s clients m' s'.
         snd (parseArgs posix appName args) = Inr gp \<and>
         snd (initializeManager env gp) = Inr s \<and>
         snd (initializeClients env gp) = Inr clients \<and>
         thread_start env clients (fst s) = Some m' \<and>
         snd (cleanupManager env gp (m', snd s)) = Inr s')"
  proof
    assume "snd (main env appName args) = Exit 0"
    from main_Exit0 [OF this] obtain gp om m calls oc clients m' s' where
      "parseArgs posix appName args = ([], Inr gp)"
      "initializeManager env gp = (om, Inr (m, calls))"
      "initializeClients env gp = (oc, Inr clients)"
      "thread_start env clients m = Some m'"
      "cleanupManager env gp (m', calls) = ([], Inr s')"
      unfolding posix_def by blast
    then have "snd (parseArgs posix appName args) = Inr gp \<and>
         snd (initializeManager env gp) = Inr (m, calls) \<and>
         snd (initializeClients env gp) = Inr clients \<and>
         thread_start env clients (fst (m, calls)) = Some m' \<and>
         snd (cleanupManager env gp (m', snd (m, calls))) = Inr s'"
      by simp
    then show "\<exists>gp s clients m' s'.
         snd (parseArgs posix appName args) = Inr gp \<and>
         snd (initializeManager env gp) = Inr s \<and>
         snd (initializeClients env gp) = Inr clients \<and>
         thread_start env clients (fst s) = Some m' \<and>
         snd (cleanupManager env gp (m', snd s)) = Inr s'"
      by blast
  next
    assume "\<exists>gp s clients m' s'.
         snd (parseArgs posix appName args) = Inr gp \<and>
         snd (initializeManager env gp) = Inr s \<and>
         snd (initializeClients env gp) = Inr clients \<and>
         thread_start env clients (fst s) = Some m' \<and>
         snd (cleanupManager env gp (m', snd s)) = Inr s'"
    then obtain gp s clients m' s' where
      h: "snd (parseArgs posix appName args) = Inr gp"
         "snd (initializeManager env gp) = Inr s"
         "snd (initializeClients env gp) = Inr clients"
         "thread_start env clients (fst s) = Some m'"
         "snd (cleanupManager env gp (m', snd s)) = Inr s'"
      by blast
    obtain op where p: "parseArgs (posixly_correct env) appName args = (op, Inr gp)"
      using h(1) unfolding posix_def by (cases "parseArgs (posixly_correct env) appName args") simp
    obtain om where im: "initializeManager env gp = (om, Inr s)"
      using h(2) by (cases "initializeManager env gp") simp
    obtain oc where ic: "initializeClients env gp = (oc, Inr clients)"
      using h(3) by (cases "initializeClients env gp") simp
    obtain ocl where c: "cleanupManager env gp (m', snd s) = (ocl, Inr s')"
      using h(5) by (cases "cleanupManager env gp (m', snd s)") simp
    show "snd (main env appName args) = Exit 0"
      by (simp add: main_cases p im ic h(4) c)
  qed
  from 1 2 3 show ?thesis unfolding posix_def by blast
qed

text \<open>
  The claim C4 as first stated fails in its second half: the arguments \<open>-c-1\<close> parse
  (\<open>atol\<close> accepts the sign), the manager is initialised, and \<open>initializeClients\<close> asks
  \<open>malloc\<close> for \<open>(size_t)(-1 * 8)\<close> bytes, which no \<open>malloc\<close> grants, so that \<open>assert(clients)\<close>
  aborts the process: it does not return exit code 0.
\<close>

theorem exit_code_counterexample:
  "\<not> isl (snd (parseArgs (posixly_correct demo_env) ''./vacation'' [''-c-1''])) \<and>
   snd (main demo_env ''./vacation'' [''-c-1'']) = Abort \<and>
   stdout_text (fst (main demo_env ''./vacation'' [''-c-1''])) =
     ''Initializing manager... '' @ ''done.'' @ nl @ ''Initializing clients... ''"
proof -
  define gp where "gp = fst (fst (parse_opts False [''-c-1'']))"
  note p = parse_negative_clients [folded gp_def]
  have "(65536::int) < 2 ^ 60" by simp
  from demo_initializeManager [where gp = gp and numRelation = 65536, OF p(5) this] obtain m calls where
    im: "initializeManager demo_env gp =
           ([(Stdout, ''Initializing manager... ''), (Stdout, ''done.'' @ nl)], Inr (m, calls))"
    by blast
  note ic = initializeClients_negative [OF p(2,3,4,5,6,7)]
  have "main demo_env ''./vacation'' [''-c-1''] =
     ([(Stdout, ''Initializing manager... ''), (Stdout, ''done.'' @ nl),
       (Stdout, ''Initializing clients... '')], Abort)"
    by (simp add: main_cases posixly_correct_demo p(1) im ic)
  then show ?thesis
    by (simp add: posixly_correct_demo p(1) stdout_text_def)
qed

theorem exit_code_1_iff_parse_fails_witness:
  "snd (main demo_env ''./vacation'' [''-c2'', ''-x'']) = Exit 1 \<and>
   snd (main demo_env ''./vacation'' [''-c'']) = Exit 1 \<and>
   snd (main demo_env ''./vacation'' [''-c2'', ''extra'']) = Exit 1"
proof -
  have 1: "snd (main demo_env ''./vacation'' [''-c2'', ''-x'']) = Exit 1"
    using exit_code_1_iff_parse_fails [of demo_env "''./vacation''" "[''-c2'', ''-x'']"]
    by (simp add: posixly_correct_demo opt_lookup_def is_option_def)
  have 2: "snd (main demo_env ''./vacation'' [''-c'']) = Exit 1"
    using exit_code_1_iff_parse_fails [of demo_env "''./vacation''" "[''-c'']"]
    by (simp add: posixly_correct_demo opt_lookup_def is_option_def)
  have 3: "snd (main demo_env ''./vacation'' [''-c2'', ''extra'']) = Exit 1"
    using exit_code_1_iff_parse_fails [of demo_env "''./vacation''" "[''-c2'', ''extra'']"]
    by (simp add: posixly_correct_demo opt_lookup_def is_option_def)
  from 1 2 3 show ?thesis by blast
qed

end
